theory Spec2Isabelle
  imports Main "HOL-Library.Multiset" "HOL-Library.Sublist"
begin

section \<open>Gesture events, acknowledgment states and the queue\<close>

text \<open>
  Modelled from the spec: the enumeration \<open>WebInputEvent::Type\<close> is declared outside
  \<open>gesture_event_queue.cc\<close>. The glossary gives the closed set of gesture kinds: the scroll,
  pinch and fling kinds that \<open>GestureEventQueue\<close> names, and the other discrete
  gesture kinds, which the queue treats uniformly (numbered here).
\<close>

datatype WebInputEventType =
    kGestureScrollBegin
  | kGestureScrollEnd
  | kGestureScrollUpdate
  | kGestureFlingStart
  | kGestureFlingCancel
  | kGesturePinchBegin
  | kGesturePinchEnd
  | kGesturePinchUpdate
  | kGestureTapDown
  | kGestureTap
  | kGestureLongPress
  | kGestureOther nat

text \<open>
  Modelled from the spec: \<open>InputEventAckState\<close> (the ack status of a pending
  entry, one of Unknown, Consumed, NotConsumed) and \<open>InputEventAckSource\<close> (an
  opaque tag) are declared outside \<open>gesture_event_queue.cc\<close>.
\<close>

datatype InputEventAckState =
    INPUT_EVENT_ACK_STATE_UNKNOWN
  | INPUT_EVENT_ACK_STATE_CONSUMED
  | INPUT_EVENT_ACK_STATE_NOT_CONSUMED

type_synonym InputEventAckSource = nat

text \<open>
  Modelled from the spec: \<open>ui::LatencyInfo\<close> is an opaque trace of timing
  annotations whose merge only adds annotations. A trace is the list of its annotations
  and \<open>AddNewLatencyFrom\<close> appends those of the other trace that are not yet present.
\<close>

type_synonym LatencyInfo = "nat list"

definition AddNewLatencyFrom :: "LatencyInfo \<Rightarrow> LatencyInfo \<Rightarrow> LatencyInfo" where
  "AddNewLatencyFrom l other = l @ filter (\<lambda>c. c \<notin> set l) other"

text \<open>
  \<open>GestureEventWithLatencyInfo\<close>: the gesture (its type and its payload, an opaque
  number here) with the attached latency trace.
\<close>

record GestureEventWithLatencyInfo =
  event_type :: WebInputEventType
  event_data :: nat
  latency :: LatencyInfo

text \<open>
  \<open>GestureEventWithLatencyInfoAndAckState\<close>: a forwarded event with its ack status.
  The constructor from an event leaves the status Unknown and the source unset.
\<close>

record GestureEventWithLatencyInfoAndAckState =
  gesture :: GestureEventWithLatencyInfo
  ack_state :: InputEventAckState
  ack_source :: "InputEventAckSource option"

definition awaiting_ack :: "GestureEventWithLatencyInfo \<Rightarrow> GestureEventWithLatencyInfoAndAckState" where
  "awaiting_ack e = \<lparr>gesture = e, ack_state = INPUT_EVENT_ACK_STATE_UNKNOWN, ack_source = None\<rparr>"

definition set_ack_info ::
  "InputEventAckSource \<Rightarrow> InputEventAckState \<Rightarrow> GestureEventWithLatencyInfoAndAckState
    \<Rightarrow> GestureEventWithLatencyInfoAndAckState" where
  "set_ack_info src res p = p\<lparr>ack_state := res, ack_source := Some src\<rparr>"

text \<open>The calls the queue makes on its client, in the order it makes them.\<close>

datatype client_call =
    SendGestureEventImmediately GestureEventWithLatencyInfo
  | OnGestureEventAck GestureEventWithLatencyInfo "InputEventAckSource option" InputEventAckState

text \<open>
  Modelled from the spec: \<open>base::OneShotTimer\<close>, a retriggerable one-shot timer:
  \<open>Start\<close> arms it with a delay, \<open>Reset\<close> re-arms it with the delay it has.
  The calls are recorded, since the two have the same effect on the timer's state.
\<close>

datatype timer_call = TimerStart int | TimerReset

record OneShotTimer =
  timer_running :: bool
  timer_delay :: int
  timer_calls :: "timer_call list"

definition timer_Start :: "int \<Rightarrow> OneShotTimer \<Rightarrow> OneShotTimer" where
  "timer_Start d t = \<lparr>timer_running = True, timer_delay = d, timer_calls = timer_calls t @ [TimerStart d]\<rparr>"

definition timer_Reset :: "OneShotTimer \<Rightarrow> OneShotTimer" where
  "timer_Reset t = t\<lparr>timer_running := True, timer_calls := timer_calls t @ [TimerReset]\<rparr>"

text \<open>
  The fields of \<open>GestureEventQueue\<close>. The fling controller's state is the type
  parameter; \<open>client_calls\<close> records the calls made on \<open>client_\<close> and
  \<open>unexpected_acks\<close> the \<open>DLOG(ERROR)\<close> diagnostics.
\<close>

record 'f GestureEventQueue =
  sent_events_awaiting_ack :: "GestureEventWithLatencyInfoAndAckState list"
  debouncing_deferral_queue :: "GestureEventWithLatencyInfo list"
  deferred_gesture_queue :: "GestureEventWithLatencyInfo list"
  scrolling_in_progress :: bool
  processing_acks :: bool
  debounce_interval :: int
  debounce_deferring_timer :: OneShotTimer
  fling_controller :: 'f
  client_calls :: "client_call list"
  unexpected_acks :: "WebInputEventType list"

text \<open>
  An acknowledgment as \<open>ProcessGestureAck\<close> receives it: source, result, type, latency.
  The client is an interface implemented elsewhere. It is modelled by the acknowledgments
  it sends back synchronously from inside a call it receives, as a function of the calls
  it has received so far (the last one being the call in progress).
\<close>

type_synonym gesture_ack = "InputEventAckSource \<times> InputEventAckState \<times> WebInputEventType \<times> LatencyInfo"

type_synonym GestureEventQueueClient = "client_call list \<Rightarrow> gesture_ack list"

section \<open>Acknowledgment processing\<close>

text \<open>
  The loop of \<open>ProcessGestureAck\<close> over the buffer: skip the entries whose status
  is known, stop at the first one of the given type.
\<close>

fun ack_first_outstanding ::
  "InputEventAckSource \<Rightarrow> InputEventAckState \<Rightarrow> WebInputEventType \<Rightarrow> LatencyInfo
    \<Rightarrow> GestureEventWithLatencyInfoAndAckState list \<Rightarrow> GestureEventWithLatencyInfoAndAckState list" where
  "ack_first_outstanding src res ty lat [] = []"
| "ack_first_outstanding src res ty lat (p # ps) =
     (if ack_state p \<noteq> INPUT_EVENT_ACK_STATE_UNKNOWN then p # ack_first_outstanding src res ty lat ps
      else if event_type (gesture p) = ty then
        set_ack_info src res (p\<lparr>gesture := (gesture p)\<lparr>latency := AddNewLatencyFrom (latency (gesture p)) lat\<rparr>\<rparr>) # ps
      else p # ack_first_outstanding src res ty lat ps)"

function
  ProcessGestureAck ::
    "GestureEventQueueClient \<Rightarrow> InputEventAckSource \<Rightarrow> InputEventAckState \<Rightarrow> WebInputEventType
      \<Rightarrow> LatencyInfo \<Rightarrow> 'f GestureEventQueue \<Rightarrow> 'f GestureEventQueue"
  and AckCompletedEvents :: "GestureEventQueueClient \<Rightarrow> 'f GestureEventQueue \<Rightarrow> 'f GestureEventQueue"
  and AckCompletedEvents_loop :: "GestureEventQueueClient \<Rightarrow> 'f GestureEventQueue \<Rightarrow> 'f GestureEventQueue"
  and AckGestureEventToClient ::
    "GestureEventQueueClient \<Rightarrow> GestureEventWithLatencyInfo \<Rightarrow> InputEventAckSource option
      \<Rightarrow> InputEventAckState \<Rightarrow> 'f GestureEventQueue \<Rightarrow> 'f GestureEventQueue"
  and client_acks :: "GestureEventQueueClient \<Rightarrow> gesture_ack list \<Rightarrow> 'f GestureEventQueue \<Rightarrow> 'f GestureEventQueue"
where
  "ProcessGestureAck cl src res ty lat s =
     (if sent_events_awaiting_ack s = [] then s\<lparr>unexpected_acks := unexpected_acks s @ [ty]\<rparr>
      else AckCompletedEvents cl
        (s\<lparr>sent_events_awaiting_ack := ack_first_outstanding src res ty lat (sent_events_awaiting_ack s)\<rparr>))"
| "AckCompletedEvents cl s =
     (if processing_acks s then s
      else (AckCompletedEvents_loop cl (s\<lparr>processing_acks := True\<rparr>))\<lparr>processing_acks := False\<rparr>)"
| "AckCompletedEvents_loop cl s =
     (case sent_events_awaiting_ack s of
        [] \<Rightarrow> s
      | p # ps \<Rightarrow>
          if ack_state p = INPUT_EVENT_ACK_STATE_UNKNOWN then s
          else AckCompletedEvents_loop cl
            (AckGestureEventToClient cl (gesture p) (ack_source p) (ack_state p)
              (s\<lparr>sent_events_awaiting_ack := ps\<rparr>)))"
| "AckGestureEventToClient cl e src res s =
     client_acks cl (cl (client_calls s @ [OnGestureEventAck e src res]))
       (s\<lparr>client_calls := client_calls s @ [OnGestureEventAck e src res]\<rparr>)"
| "client_acks cl [] s = s"
| "client_acks cl ((src, res, ty, lat) # as) s =
     client_acks cl as (ProcessGestureAck cl src res ty lat s)"
  by pat_completeness auto


section \<open>Forwarding and debouncing\<close>

text \<open>
  The fling controller is implemented elsewhere: its operations are parameters, each a
  function of the controller's state.
\<close>

record 'f FlingController =
  FilterGestureEvent :: "GestureEventWithLatencyInfo \<Rightarrow> 'f \<Rightarrow> bool \<times> 'f"
  ProcessGestureFlingStart :: "GestureEventWithLatencyInfo \<Rightarrow> 'f \<Rightarrow> 'f"
  ProcessGestureFlingCancel :: "GestureEventWithLatencyInfo \<Rightarrow> 'f \<Rightarrow> 'f"
  fling_in_progress :: "'f \<Rightarrow> bool"
  RegisterFlingSchedulerObserver :: "'f \<Rightarrow> 'f"
  UnregisterFlingSchedulerObserver :: "'f \<Rightarrow> 'f"

text \<open>
  A failed \<open>DCHECK\<close> ends the process where the checks are compiled in
  (\<open>dcheck_is_on\<close>); where they are not, the statement is empty.
\<close>

datatype fatal = DCheckFailure

definition GestureEventQueue_new :: "int \<Rightarrow> 'f \<Rightarrow> 'f GestureEventQueue" where
  "GestureEventQueue_new interval fling =
     \<lparr>sent_events_awaiting_ack = [], debouncing_deferral_queue = [], deferred_gesture_queue = [],
      scrolling_in_progress = False, processing_acks = False, debounce_interval = interval,
      debounce_deferring_timer = \<lparr>timer_running = False, timer_delay = 0, timer_calls = []\<rparr>,
      fling_controller = fling, client_calls = [], unexpected_acks = []\<rparr>"

text \<open>\<open>client_->SendGestureEventImmediately\<close>: the call, and what the client sends back during it.\<close>

definition client_SendGestureEventImmediately ::
  "GestureEventQueueClient \<Rightarrow> GestureEventWithLatencyInfo \<Rightarrow> 'f GestureEventQueue \<Rightarrow> 'f GestureEventQueue" where
  "client_SendGestureEventImmediately cl e s =
     client_acks cl (cl (client_calls s @ [SendGestureEventImmediately e]))
       (s\<lparr>client_calls := client_calls s @ [SendGestureEventImmediately e]\<rparr>)"

definition ForwardGestureEvent ::
  "bool \<Rightarrow> 'f FlingController \<Rightarrow> GestureEventQueueClient \<Rightarrow> GestureEventWithLatencyInfo
    \<Rightarrow> 'f GestureEventQueue \<Rightarrow> fatal + 'f GestureEventQueue" where
  "ForwardGestureEvent dcheck_is_on fc cl e s =
     (if dcheck_is_on \<and> event_type e = kGestureFlingStart then Inl DCheckFailure
      else if dcheck_is_on \<and> event_type e = kGestureFlingCancel then Inl DCheckFailure
      else
        let s1 = s\<lparr>sent_events_awaiting_ack := sent_events_awaiting_ack s @ [awaiting_ack e]\<rparr>;
            s2 = (if event_type e = kGestureScrollBegin then
                    s1\<lparr>fling_controller := RegisterFlingSchedulerObserver fc (fling_controller s1)\<rparr>
                  else if event_type e = kGestureScrollEnd then
                    s1\<lparr>fling_controller := UnregisterFlingSchedulerObserver fc (fling_controller s1)\<rparr>
                  else s1)
        in Inr (client_SendGestureEventImmediately cl e s2))"

definition ShouldForwardForBounceReduction ::
  "'f FlingController \<Rightarrow> GestureEventWithLatencyInfo \<Rightarrow> 'f GestureEventQueue
    \<Rightarrow> bool \<times> 'f GestureEventQueue" where
  "ShouldForwardForBounceReduction fc e s =
     (if debounce_interval s \<le> 0 then (True, s)
      else if fling_in_progress fc (fling_controller s) then (True, s)
      else
        (case event_type e of
           kGestureScrollUpdate \<Rightarrow>
             (True,
              s\<lparr>debounce_deferring_timer :=
                   (if \<not> scrolling_in_progress s
                    then timer_Start (debounce_interval s) (debounce_deferring_timer s)
                    else timer_Reset (debounce_deferring_timer s)),
                 scrolling_in_progress := True,
                 debouncing_deferral_queue := []\<rparr>)
         | kGesturePinchBegin \<Rightarrow> (True, s)
         | kGesturePinchEnd \<Rightarrow> (True, s)
         | kGesturePinchUpdate \<Rightarrow> (True, s)
         | _ \<Rightarrow>
             if scrolling_in_progress s
             then (False, s\<lparr>debouncing_deferral_queue := debouncing_deferral_queue s @ [e]\<rparr>)
             else (True, s)))"

definition DebounceOrForwardEvent ::
  "bool \<Rightarrow> 'f FlingController \<Rightarrow> GestureEventQueueClient \<Rightarrow> GestureEventWithLatencyInfo
    \<Rightarrow> 'f GestureEventQueue \<Rightarrow> fatal + bool \<times> 'f GestureEventQueue" where
  "DebounceOrForwardEvent dcheck_is_on fc cl e s =
     (if dcheck_is_on \<and> event_type e = kGestureFlingStart then Inl DCheckFailure
      else if dcheck_is_on \<and> event_type e = kGestureFlingCancel then Inl DCheckFailure
      else
        (case ShouldForwardForBounceReduction fc e s of
           (False, s1) \<Rightarrow> Inr (False, s1)
         | (True, s1) \<Rightarrow>
             (case ForwardGestureEvent dcheck_is_on fc cl e s1 of
                Inl f \<Rightarrow> Inl f
              | Inr s2 \<Rightarrow> Inr (True, s2))))"

definition FlingControllerFilterEvent ::
  "'f FlingController \<Rightarrow> GestureEventWithLatencyInfo \<Rightarrow> 'f GestureEventQueue
    \<Rightarrow> bool \<times> 'f GestureEventQueue" where
  "FlingControllerFilterEvent fc e s =
     (case FilterGestureEvent fc e (fling_controller s) of
        (True, f1) \<Rightarrow> (True, s\<lparr>fling_controller := f1\<rparr>)
      | (False, f1) \<Rightarrow>
          if event_type e = kGestureFlingStart
          then (True, s\<lparr>fling_controller := ProcessGestureFlingStart fc e f1\<rparr>)
          else if event_type e = kGestureFlingCancel
          then (True, s\<lparr>fling_controller := ProcessGestureFlingCancel fc e f1\<rparr>)
          else (False, s\<lparr>fling_controller := f1\<rparr>))"

definition QueueDeferredEvents ::
  "GestureEventWithLatencyInfo \<Rightarrow> 'f GestureEventQueue \<Rightarrow> 'f GestureEventQueue" where
  "QueueDeferredEvents e s = s\<lparr>deferred_gesture_queue := deferred_gesture_queue s @ [e]\<rparr>"

definition TakeDeferredEvents ::
  "'f GestureEventQueue \<Rightarrow> GestureEventWithLatencyInfo list \<times> 'f GestureEventQueue" where
  "TakeDeferredEvents s = (deferred_gesture_queue s, s\<lparr>deferred_gesture_queue := []\<rparr>)"

text \<open>The loop of \<open>SendScrollEndingEventsNow\<close> over the swapped-out deferral queue.\<close>

fun SendScrollEndingEventsNow_loop ::
  "bool \<Rightarrow> 'f FlingController \<Rightarrow> GestureEventQueueClient \<Rightarrow> GestureEventWithLatencyInfo list
    \<Rightarrow> 'f GestureEventQueue \<Rightarrow> fatal + 'f GestureEventQueue" where
  "SendScrollEndingEventsNow_loop dcheck_is_on fc cl [] s = Inr s"
| "SendScrollEndingEventsNow_loop dcheck_is_on fc cl (e # es) s =
     (case FilterGestureEvent fc e (fling_controller s) of
        (True, f1) \<Rightarrow> SendScrollEndingEventsNow_loop dcheck_is_on fc cl es (s\<lparr>fling_controller := f1\<rparr>)
      | (False, f1) \<Rightarrow>
          (case ForwardGestureEvent dcheck_is_on fc cl e (s\<lparr>fling_controller := f1\<rparr>) of
             Inl f \<Rightarrow> Inl f
           | Inr s1 \<Rightarrow> SendScrollEndingEventsNow_loop dcheck_is_on fc cl es s1))"

definition SendScrollEndingEventsNow ::
  "bool \<Rightarrow> 'f FlingController \<Rightarrow> GestureEventQueueClient \<Rightarrow> 'f GestureEventQueue
    \<Rightarrow> fatal + 'f GestureEventQueue" where
  "SendScrollEndingEventsNow dcheck_is_on fc cl s =
     (let s1 = s\<lparr>scrolling_in_progress := False\<rparr>
      in if debouncing_deferral_queue s1 = [] then Inr s1
         else SendScrollEndingEventsNow_loop dcheck_is_on fc cl (debouncing_deferral_queue s1)
                (s1\<lparr>debouncing_deferral_queue := []\<rparr>))"

text \<open>
  Modelled from the spec: the expiry of \<open>debounce_deferring_timer_\<close> happens in
  \<open>base::OneShotTimer\<close>, outside \<open>gesture_event_queue.cc\<close>. The timer is
  one-shot: when it fires it stops running and calls the task it was started with,
  \<open>SendScrollEndingEventsNow\<close>. A timer that is not running does not fire.
\<close>

definition debounce_deferring_timer_fires ::
  "bool \<Rightarrow> 'f FlingController \<Rightarrow> GestureEventQueueClient \<Rightarrow> 'f GestureEventQueue
    \<Rightarrow> fatal + 'f GestureEventQueue" where
  "debounce_deferring_timer_fires dcheck_is_on fc cl s =
     (if timer_running (debounce_deferring_timer s)
      then SendScrollEndingEventsNow dcheck_is_on fc cl
             (s\<lparr>debounce_deferring_timer := (debounce_deferring_timer s)\<lparr>timer_running := False\<rparr>\<rparr>)
      else Inr s)"


section \<open>Observations and auxiliary notions\<close>

text \<open>
  What a release pass may rely on when it calls itself through the client: the buffer does
  not grow and the re-entrancy flag is as before.
\<close>

definition pass_progress :: "'f GestureEventQueue \<Rightarrow> 'f GestureEventQueue \<Rightarrow> bool" where
  "pass_progress s s' \<longleftrightarrow>
     length (sent_events_awaiting_ack s') \<le> length (sent_events_awaiting_ack s)
     \<and> processing_acks s' = processing_acks s"

text \<open>The fields that acknowledgment processing never writes.\<close>

definition ack_frame :: "'f GestureEventQueue \<Rightarrow> 'f GestureEventQueue \<Rightarrow> bool" where
  "ack_frame s s' \<longleftrightarrow>
     debouncing_deferral_queue s' = debouncing_deferral_queue s
     \<and> deferred_gesture_queue s' = deferred_gesture_queue s
     \<and> scrolling_in_progress s' = scrolling_in_progress s
     \<and> processing_acks s' = processing_acks s
     \<and> debounce_interval s' = debounce_interval s
     \<and> debounce_deferring_timer s' = debounce_deferring_timer s
     \<and> fling_controller s' = fling_controller s"

text \<open>
  The events the client was sent, and the events, sources and results it was told
  acknowledged, each in call order.
\<close>

fun sent_to_client :: "client_call list \<Rightarrow> GestureEventWithLatencyInfo list" where
  "sent_to_client [] = []"
| "sent_to_client (SendGestureEventImmediately e # cs) = e # sent_to_client cs"
| "sent_to_client (OnGestureEventAck e src res # cs) = sent_to_client cs"

fun acked_to_client ::
  "client_call list \<Rightarrow> (GestureEventWithLatencyInfo \<times> InputEventAckSource option \<times> InputEventAckState) list" where
  "acked_to_client [] = []"
| "acked_to_client (SendGestureEventImmediately e # cs) = acked_to_client cs"
| "acked_to_client (OnGestureEventAck e src res # cs) = (e, src, res) # acked_to_client cs"

text \<open>
  What identifies a gesture whatever latency is merged into it: its type and payload.
\<close>

definition event_key :: "GestureEventWithLatencyInfo \<Rightarrow> WebInputEventType \<times> nat" where
  "event_key e = (event_type e, event_data e)"

definition acked_keys :: "client_call list \<Rightarrow> (WebInputEventType \<times> nat) list" where
  "acked_keys cs = map (\<lambda>(e, src, res). event_key e) (acked_to_client cs)"

definition pending_keys :: "'f GestureEventQueue \<Rightarrow> (WebInputEventType \<times> nat) list" where
  "pending_keys s = map (\<lambda>p. event_key (gesture p)) (sent_events_awaiting_ack s)"

text \<open>
  The buffer is drained: no release pass is running and the front entry, if there is one,
  still waits for its acknowledgment.
\<close>

definition front_outstanding :: "'f GestureEventQueue \<Rightarrow> bool" where
  "front_outstanding s \<longleftrightarrow>
     \<not> processing_acks s
     \<and> (case sent_events_awaiting_ack s of
          [] \<Rightarrow> True
        | p # ps \<Rightarrow> ack_state p = INPUT_EVENT_ACK_STATE_UNKNOWN)"

text \<open>A fling controller that consumes nothing and only records whether a fling runs.\<close>

definition passive_fling_controller :: "bool FlingController" where
  "passive_fling_controller =
     \<lparr>FilterGestureEvent = (\<lambda>e f. (False, f)),
      ProcessGestureFlingStart = (\<lambda>e f. True),
      ProcessGestureFlingCancel = (\<lambda>e f. False),
      fling_in_progress = (\<lambda>f. f),
      RegisterFlingSchedulerObserver = (\<lambda>f. f),
      UnregisterFlingSchedulerObserver = (\<lambda>f. f)\<rparr>"

text \<open>A client that never acknowledges from inside a call.\<close>

definition quiet_client :: GestureEventQueueClient where
  "quiet_client calls = []"

definition gesture_event :: "WebInputEventType \<Rightarrow> nat \<Rightarrow> GestureEventWithLatencyInfo" where
  "gesture_event ty d = \<lparr>event_type = ty, event_data = d, latency = []\<rparr>"

text \<open>
  An event that passes the contract check of \<open>DebounceOrForwardEvent\<close> and
  \<open>ForwardGestureEvent\<close>: where the checks are compiled in, it is neither a fling start
  nor a fling cancel.
\<close>

definition admissible :: "bool \<Rightarrow> GestureEventWithLatencyInfo \<Rightarrow> bool" where
  "admissible dcheck_is_on e \<longleftrightarrow>
     \<not> (dcheck_is_on \<and> (event_type e = kGestureFlingStart \<or> event_type e = kGestureFlingCancel))"

text \<open>What \<open>ForwardGestureEvent\<close> does to the fling controller.\<close>

definition observer_update ::
  "'f FlingController \<Rightarrow> GestureEventWithLatencyInfo \<Rightarrow> 'f \<Rightarrow> 'f" where
  "observer_update fc e f =
     (if event_type e = kGestureScrollBegin then RegisterFlingSchedulerObserver fc f
      else if event_type e = kGestureScrollEnd then UnregisterFlingSchedulerObserver fc f
      else f)"

text \<open>
  A queue with a quiet period of 100, after a first scroll update was forwarded: the
  scrolling flag is set, the timer runs, and the given events are deferred.
\<close>

definition scrolling_queue :: "GestureEventWithLatencyInfo list \<Rightarrow> bool GestureEventQueue" where
  "scrolling_queue deferred =
     (GestureEventQueue_new 100 False)
       \<lparr>debouncing_deferral_queue := deferred,
        scrolling_in_progress := True,
        debounce_deferring_timer := \<lparr>timer_running = True, timer_delay = 100, timer_calls = [TimerStart 100]\<rparr>,
        client_calls := [SendGestureEventImmediately (gesture_event kGestureScrollUpdate 1)]\<rparr>"

text \<open>An entry that an acknowledgment of the given type would match.\<close>

definition awaits_ack_of :: "WebInputEventType \<Rightarrow> GestureEventWithLatencyInfoAndAckState \<Rightarrow> bool" where
  "awaits_ack_of ty p \<longleftrightarrow> ack_state p = INPUT_EVENT_ACK_STATE_UNKNOWN \<and> event_type (gesture p) = ty"

text \<open>
  The matched entry after the acknowledgment: latency merged, status and source set.
\<close>

definition acknowledged ::
  "InputEventAckSource \<Rightarrow> InputEventAckState \<Rightarrow> LatencyInfo
    \<Rightarrow> GestureEventWithLatencyInfoAndAckState \<Rightarrow> GestureEventWithLatencyInfoAndAckState" where
  "acknowledged src res lat p =
     \<lparr>gesture = \<lparr>event_type = event_type (gesture p), event_data = event_data (gesture p),
                 latency = AddNewLatencyFrom (latency (gesture p)) lat\<rparr>,
      ack_state = res, ack_source = Some src\<rparr>"

text \<open>The report of a released entry to the client.\<close>

definition report_of :: "GestureEventWithLatencyInfoAndAckState \<Rightarrow> client_call" where
  "report_of p = OnGestureEventAck (gesture p) (ack_source p) (ack_state p)"

text \<open>An entry whose status has left Unknown.\<close>

definition ack_known :: "GestureEventWithLatencyInfoAndAckState \<Rightarrow> bool" where
  "ack_known p \<longleftrightarrow> ack_state p \<noteq> INPUT_EVENT_ACK_STATE_UNKNOWN"

text \<open>A buffer entry of the given type, payload and status, and a queue that holds a given buffer.\<close>

definition pending_entry ::
  "WebInputEventType \<Rightarrow> nat \<Rightarrow> InputEventAckState \<Rightarrow> GestureEventWithLatencyInfoAndAckState" where
  "pending_entry ty d st = \<lparr>gesture = gesture_event ty d, ack_state = st, ack_source = None\<rparr>"

definition queue_awaiting :: "GestureEventWithLatencyInfoAndAckState list \<Rightarrow> bool GestureEventQueue" where
  "queue_awaiting ps = (GestureEventQueue_new 0 False)\<lparr>sent_events_awaiting_ack := ps\<rparr>"

text \<open>The entries of the given types have all left Unknown.\<close>

definition settled :: "WebInputEventType set \<Rightarrow> GestureEventWithLatencyInfoAndAckState list \<Rightarrow> bool" where
  "settled K ps \<longleftrightarrow> (\<forall>p\<in>set ps. event_type (gesture p) \<in> K \<longrightarrow> ack_known p)"

text \<open>The results that the client was told, in call order.\<close>

definition acked_results :: "client_call list \<Rightarrow> InputEventAckState list" where
  "acked_results cs = map (\<lambda>(e, src, res). res) (acked_to_client cs)"

definition ack_result :: "gesture_ack \<Rightarrow> InputEventAckState" where
  "ack_result a = fst (snd a)"

definition ack_type :: "gesture_ack \<Rightarrow> WebInputEventType" where
  "ack_type a = fst (snd (snd a))"

text \<open>\<open>ForwardGestureEvent\<close> called for each event of a sequence, in order.\<close>

fun forward_each ::
  "bool \<Rightarrow> 'f FlingController \<Rightarrow> GestureEventQueueClient \<Rightarrow> GestureEventWithLatencyInfo list
    \<Rightarrow> 'f GestureEventQueue \<Rightarrow> fatal + 'f GestureEventQueue" where
  "forward_each dcheck_is_on fc cl [] s = Inr s"
| "forward_each dcheck_is_on fc cl (e # es) s =
     (case ForwardGestureEvent dcheck_is_on fc cl e s of
        Inl f \<Rightarrow> Inl f
      | Inr s1 \<Rightarrow> forward_each dcheck_is_on fc cl es s1)"

text \<open>
  From the \<open>n\<close>th call on, the client was never told an acknowledgment with status
  Unknown.
\<close>

definition reports_known_from :: "nat \<Rightarrow> 'f GestureEventQueue \<Rightarrow> bool" where
  "reports_known_from n s \<longleftrightarrow>
     n \<le> length (client_calls s)
     \<and> INPUT_EVENT_ACK_STATE_UNKNOWN \<notin> set (acked_results (drop n (client_calls s)))"

text \<open>
  A client that acknowledges from inside the reports it receives: when it is told that a
  scroll begin was acknowledged it acknowledges a scroll update and a scroll end, and
  when it is told that a scroll update was acknowledged it acknowledges a scroll end
  again, with another source and result.
\<close>

definition reentrant_client :: GestureEventQueueClient where
  "reentrant_client calls =
     (case rev calls of
        OnGestureEventAck e src res # cs \<Rightarrow>
          if event_type e = kGestureScrollBegin
          then [(2, INPUT_EVENT_ACK_STATE_NOT_CONSUMED, kGestureScrollUpdate, [9]),
                (1, INPUT_EVENT_ACK_STATE_CONSUMED, kGestureScrollEnd, [])]
          else if event_type e = kGestureScrollUpdate
          then [(2, INPUT_EVENT_ACK_STATE_NOT_CONSUMED, kGestureScrollEnd, [])]
          else []
      | _ \<Rightarrow> [])"

text \<open>
  The deferred events that are forwarded when the deferral queue is flushed: each event
  is offered to the fling controller's filter, in queue order, and is kept if the filter
  does not consume it. The controller's state passes from one event to the next, through
  the filter and through what forwarding does to the controller.
\<close>

fun unconsumed ::
  "'f FlingController \<Rightarrow> GestureEventWithLatencyInfo list \<Rightarrow> 'f \<Rightarrow> GestureEventWithLatencyInfo list" where
  "unconsumed fc [] f = []"
| "unconsumed fc (e # es) f =
     (case FilterGestureEvent fc e f of
        (True, f1) \<Rightarrow> unconsumed fc es f1
      | (False, f1) \<Rightarrow> e # unconsumed fc es (observer_update fc e f1))"

text \<open>
  What an acknowledgment does when it arrives while a release pass is running, in the
  spec's words: it is matched against the buffer (or reported as unexpected when the
  buffer is empty) and releases nothing.
\<close>

definition mark_only :: "gesture_ack \<Rightarrow> 'f GestureEventQueue \<Rightarrow> 'f GestureEventQueue" where
  "mark_only a s =
     (case a of (src, res, ty, lat) \<Rightarrow>
        if sent_events_awaiting_ack s = [] then s\<lparr>unexpected_acks := unexpected_acks s @ [ty]\<rparr>
        else s\<lparr>sent_events_awaiting_ack :=
               ack_first_outstanding src res ty lat (sent_events_awaiting_ack s)\<rparr>)"

text \<open>
  The release pass in the spec's words: while the front entry has left Unknown, remove it
  and report it; whatever the client acknowledges from inside the report only marks
  entries; then look at the new front.
\<close>

function release_pass :: "GestureEventQueueClient \<Rightarrow> 'f GestureEventQueue \<Rightarrow> 'f GestureEventQueue" where
  "release_pass cl s =
     (case sent_events_awaiting_ack s of
        [] \<Rightarrow> s
      | p # ps \<Rightarrow>
          if ack_state p = INPUT_EVENT_ACK_STATE_UNKNOWN then s
          else release_pass cl
            (fold mark_only (cl (client_calls s @ [report_of p]))
              (s\<lparr>sent_events_awaiting_ack := ps,
                 client_calls := client_calls s @ [report_of p]\<rparr>)))"
  by pat_completeness auto

section \<open>Termination of acknowledgment processing\<close>

lemmas ack_pinduct =
  ProcessGestureAck_AckCompletedEvents_AckCompletedEvents_loop_AckGestureEventToClient_client_acks.pinduct

lemma length_ack_first_outstanding [simp]:
  "length (ack_first_outstanding src res ty lat ps) = length ps"
  by (induction ps) (simp_all add: set_ack_info_def)

lemma pass_progress_refl [simp]: "pass_progress s s"
  by (simp add: pass_progress_def)

lemma pass_progress_trans: "pass_progress s t \<Longrightarrow> pass_progress t u \<Longrightarrow> pass_progress s u"
  by (auto simp: pass_progress_def)

lemma ack_dom_progress:
  "ProcessGestureAck_AckCompletedEvents_AckCompletedEvents_loop_AckGestureEventToClient_client_acks_dom
      (Inl (Inl (cl, src, res, ty, lat, s)))
    \<Longrightarrow> pass_progress s (ProcessGestureAck cl src res ty lat s)"
  "ProcessGestureAck_AckCompletedEvents_AckCompletedEvents_loop_AckGestureEventToClient_client_acks_dom
      (Inl (Inr (cl, s)))
    \<Longrightarrow> pass_progress s (AckCompletedEvents cl s)"
  "ProcessGestureAck_AckCompletedEvents_AckCompletedEvents_loop_AckGestureEventToClient_client_acks_dom
      (Inr (Inl (cl, s)))
    \<Longrightarrow> pass_progress s (AckCompletedEvents_loop cl s)"
  "ProcessGestureAck_AckCompletedEvents_AckCompletedEvents_loop_AckGestureEventToClient_client_acks_dom
      (Inr (Inr (Inl (cl, e, osrc, res, s))))
    \<Longrightarrow> pass_progress s (AckGestureEventToClient cl e osrc res s)"
  "ProcessGestureAck_AckCompletedEvents_AckCompletedEvents_loop_AckGestureEventToClient_client_acks_dom
      (Inr (Inr (Inr (cl, as, s))))
    \<Longrightarrow> pass_progress s (client_acks cl as s)"
proof (induction rule: ack_pinduct)
  case (1 cl src res ty lat s)
  then show ?case
    by (auto simp: ProcessGestureAck.psimps pass_progress_def)
next
  case (2 cl s)
  then show ?case
    by (auto simp: AckCompletedEvents.psimps pass_progress_def)
next
  case (3 cl s)
  show ?case
  proof (cases "sent_events_awaiting_ack s")
    case Nil
    with 3(1) show ?thesis by (simp add: AckCompletedEvents_loop.psimps)
  next
    case (Cons p ps)
    show ?thesis
    proof (cases "ack_state p = INPUT_EVENT_ACK_STATE_UNKNOWN")
      case True
      with 3(1) Cons show ?thesis by (simp add: AckCompletedEvents_loop.psimps)
    next
      case False
      from 3(2)[OF Cons False] 3(3)[OF Cons False] 3(1) Cons False show ?thesis
        by (auto simp: AckCompletedEvents_loop.psimps pass_progress_def)
    qed
  qed
next
  case (4 cl e src res s)
  then show ?case
    by (auto simp: AckGestureEventToClient.psimps pass_progress_def)
next
  case (5 cl s)
  then show ?case by (simp add: client_acks.psimps)
next
  case (6 cl src res ty lat as s)
  then show ?case
    by (auto simp: client_acks.psimps pass_progress_def)
qed

termination ProcessGestureAck
  apply (relation "inv_image (less_than <*lex*> less_than <*lex*> less_than <*lex*> less_than)
     (\<lambda>x. case x of
        Inl (Inl (cl, src, res, ty, lat, s)) \<Rightarrow>
          (length (sent_events_awaiting_ack s), if processing_acks s then 0 else 1, 2::nat, 0::nat)
      | Inl (Inr (cl, s)) \<Rightarrow>
          (length (sent_events_awaiting_ack s), if processing_acks s then 0 else 1, 1, 0)
      | Inr (Inl (cl, s)) \<Rightarrow>
          (length (sent_events_awaiting_ack s), if processing_acks s then 0 else (1::nat), 0, 0)
      | Inr (Inr (Inl (cl, e, osrc, res, s))) \<Rightarrow>
          (length (sent_events_awaiting_ack s), if processing_acks s then 0 else 1, 4, 0)
      | Inr (Inr (Inr (cl, as, s))) \<Rightarrow>
          (length (sent_events_awaiting_ack s), if processing_acks s then 0 else 1, 3, length as))")
  subgoal by auto
  subgoal by simp
  subgoal by simp
  subgoal by simp
  subgoal for cl s p ps
    using ack_dom_progress(4)[of cl "gesture p" "ack_source p" "ack_state p" "s\<lparr>sent_events_awaiting_ack := ps\<rparr>"]
    by (auto simp: pass_progress_def)
  subgoal by simp
  subgoal by simp
  subgoal for cl src res ty lat as s
    using ack_dom_progress(1)[of cl src res ty lat s]
    by (auto simp: pass_progress_def)
  done

lemmas ack_induct =
  ProcessGestureAck_AckCompletedEvents_AckCompletedEvents_loop_AckGestureEventToClient_client_acks.induct

declare ProcessGestureAck.simps [simp del] AckCompletedEvents.simps [simp del]
  AckCompletedEvents_loop.simps [simp del] AckGestureEventToClient.simps [simp del]

section \<open>Frame and conservation properties\<close>

subsection \<open>What acknowledgment processing leaves alone\<close>

lemma ack_frame_refl [simp]: "ack_frame s s"
  by (simp add: ack_frame_def)

lemma ack_frame_all:
  "ack_frame s (ProcessGestureAck cl src res ty lat s)"
  "ack_frame s (AckCompletedEvents cl s)"
  "ack_frame s (AckCompletedEvents_loop cl s)"
  "ack_frame s (AckGestureEventToClient cl e osrc ores s)"
  "ack_frame s (client_acks cl as s)"
proof (induction cl src res ty lat s and cl s and cl s and cl e osrc ores s and cl as s rule: ack_induct)
  case (1 cl src res ty lat s)
  then show ?case
    by (auto simp: ProcessGestureAck.simps ack_frame_def)
next
  case (2 cl s)
  then show ?case
    by (auto simp: AckCompletedEvents.simps ack_frame_def)
next
  case (3 cl s)
  show ?case
  proof (cases "sent_events_awaiting_ack s")
    case Nil
    then show ?thesis by (simp add: AckCompletedEvents_loop.simps)
  next
    case (Cons p ps)
    show ?thesis
    proof (cases "ack_state p = INPUT_EVENT_ACK_STATE_UNKNOWN")
      case True
      with Cons show ?thesis by (simp add: AckCompletedEvents_loop.simps)
    next
      case False
      from 3(1)[OF Cons False] 3(2)[OF Cons False] Cons False show ?thesis
        by (auto simp: AckCompletedEvents_loop.simps ack_frame_def)
    qed
  qed
next
  case (4 cl e src res s)
  then show ?case
    by (auto simp: AckGestureEventToClient.simps ack_frame_def)
next
  case (5 cl s)
  then show ?case by simp
next
  case (6 cl src res ty lat as s)
  then show ?case
    by (auto simp: ack_frame_def)
qed

lemma sent_to_client_append [simp]:
  "sent_to_client (xs @ ys) = sent_to_client xs @ sent_to_client ys"
  by (induction xs rule: sent_to_client.induct) simp_all

lemma acked_to_client_append [simp]:
  "acked_to_client (xs @ ys) = acked_to_client xs @ acked_to_client ys"
  by (induction xs rule: acked_to_client.induct) simp_all

lemma acked_keys_append [simp]: "acked_keys (xs @ ys) = acked_keys xs @ acked_keys ys"
  by (simp add: acked_keys_def)

lemma ack_sends_all:
  "sent_to_client (client_calls (ProcessGestureAck cl src res ty lat s)) = sent_to_client (client_calls s)"
  "sent_to_client (client_calls (AckCompletedEvents cl s)) = sent_to_client (client_calls s)"
  "sent_to_client (client_calls (AckCompletedEvents_loop cl s)) = sent_to_client (client_calls s)"
  "sent_to_client (client_calls (AckGestureEventToClient cl e osrc ores s)) = sent_to_client (client_calls s)"
  "sent_to_client (client_calls (client_acks cl as s)) = sent_to_client (client_calls s)"
proof (induction cl src res ty lat s and cl s and cl s and cl e osrc ores s and cl as s rule: ack_induct)
  case (1 cl src res ty lat s)
  then show ?case
    by (auto simp: ProcessGestureAck.simps)
next
  case (2 cl s)
  then show ?case
    by (auto simp: AckCompletedEvents.simps)
next
  case (3 cl s)
  show ?case
  proof (cases "sent_events_awaiting_ack s")
    case Nil
    then show ?thesis by (simp add: AckCompletedEvents_loop.simps)
  next
    case (Cons p ps)
    show ?thesis
    proof (cases "ack_state p = INPUT_EVENT_ACK_STATE_UNKNOWN")
      case True
      with Cons show ?thesis by (simp add: AckCompletedEvents_loop.simps)
    next
      case False
      from 3(1)[OF Cons False] 3(2)[OF Cons False] Cons False show ?thesis
        by (auto simp: AckCompletedEvents_loop.simps)
    qed
  qed
next
  case (4 cl e src res s)
  then show ?case
    by (auto simp: AckGestureEventToClient.simps)
next
  case (5 cl s)
  then show ?case by simp
next
  case (6 cl src res ty lat as s)
  then show ?case
    by auto
qed

subsection \<open>Forwarding\<close>

lemma Forward_admissible:
  "admissible dc e \<Longrightarrow>
   ForwardGestureEvent dc fc cl e s =
     Inr (client_SendGestureEventImmediately cl e
       (s\<lparr>sent_events_awaiting_ack := sent_events_awaiting_ack s @ [awaiting_ack e],
          fling_controller := observer_update fc e (fling_controller s)\<rparr>))"
  by (auto simp: ForwardGestureEvent_def admissible_def observer_update_def Let_def)

lemma Forward_Inr_admissible: "ForwardGestureEvent dc fc cl e s = Inr s' \<Longrightarrow> admissible dc e"
  by (auto simp: ForwardGestureEvent_def admissible_def split: if_splits)

lemma send_frame:
  "debouncing_deferral_queue (client_SendGestureEventImmediately cl e s) = debouncing_deferral_queue s"
  "deferred_gesture_queue (client_SendGestureEventImmediately cl e s) = deferred_gesture_queue s"
  "scrolling_in_progress (client_SendGestureEventImmediately cl e s) = scrolling_in_progress s"
  "processing_acks (client_SendGestureEventImmediately cl e s) = processing_acks s"
  "debounce_interval (client_SendGestureEventImmediately cl e s) = debounce_interval s"
  "debounce_deferring_timer (client_SendGestureEventImmediately cl e s) = debounce_deferring_timer s"
  "fling_controller (client_SendGestureEventImmediately cl e s) = fling_controller s"
  using ack_frame_all(5)[of "s\<lparr>client_calls := client_calls s @ [SendGestureEventImmediately e]\<rparr>"
      cl "cl (client_calls s @ [SendGestureEventImmediately e])"]
  by (simp_all add: client_SendGestureEventImmediately_def ack_frame_def)

lemma send_sends:
  "sent_to_client (client_calls (client_SendGestureEventImmediately cl e s))
     = sent_to_client (client_calls s) @ [e]"
  by (simp add: client_SendGestureEventImmediately_def ack_sends_all)

lemma Forward_frame:
  assumes "ForwardGestureEvent dc fc cl e s = Inr s'"
  shows "debouncing_deferral_queue s' = debouncing_deferral_queue s"
    and "deferred_gesture_queue s' = deferred_gesture_queue s"
    and "scrolling_in_progress s' = scrolling_in_progress s"
    and "processing_acks s' = processing_acks s"
    and "debounce_interval s' = debounce_interval s"
    and "debounce_deferring_timer s' = debounce_deferring_timer s"
    and "fling_controller s' = observer_update fc e (fling_controller s)"
    and "sent_to_client (client_calls s') = sent_to_client (client_calls s) @ [e]"
  using assms Forward_admissible[OF Forward_Inr_admissible[OF assms], of fc cl s]
  by (auto simp: send_frame send_sends)

lemma loop_deferred:
  "SendScrollEndingEventsNow_loop dc fc cl es s = Inr s'
    \<Longrightarrow> deferred_gesture_queue s' = deferred_gesture_queue s"
proof (induction es arbitrary: s)
  case Nil
  then show ?case by simp
next
  case (Cons e es)
  obtain c f1 where f: "FilterGestureEvent fc e (fling_controller s) = (c, f1)"
    by (cases "FilterGestureEvent fc e (fling_controller s)")
  show ?case
  proof (cases c)
    case True
    with Cons f show ?thesis by auto
  next
    case False
    with Cons.prems f obtain s1 where
      s1: "ForwardGestureEvent dc fc cl e (s\<lparr>fling_controller := f1\<rparr>) = Inr s1"
      and r: "SendScrollEndingEventsNow_loop dc fc cl es s1 = Inr s'"
      by (auto split: sum.splits)
    from Cons.IH[OF r] Forward_frame(2)[OF s1] show ?thesis by simp
  qed
qed


lemma should_deferred: "deferred_gesture_queue (snd (ShouldForwardForBounceReduction fc e t)) = deferred_gesture_queue t"
    by (simp add: ShouldForwardForBounceReduction_def split: WebInputEventType.split)

lemma Debounce_cases:
  assumes "ShouldForwardForBounceReduction fc e s = (b, s1)"
  shows "DebounceOrForwardEvent dc fc cl e s =
     (if \<not> admissible dc e then Inl DCheckFailure
      else if b then (case ForwardGestureEvent dc fc cl e s1 of Inl f \<Rightarrow> Inl f | Inr s2 \<Rightarrow> Inr (True, s2))
      else Inr (False, s1))"
  using assms by (cases b) (auto simp: DebounceOrForwardEvent_def admissible_def)

lemma Debounce_deferred:
  "DebounceOrForwardEvent dc fc cl e s = Inr (b, s')
    \<Longrightarrow> deferred_gesture_queue s' = deferred_gesture_queue s"
proof -
  assume a: "DebounceOrForwardEvent dc fc cl e s = Inr (b, s')"
  obtain b1 s1 where p: "ShouldForwardForBounceReduction fc e s = (b1, s1)"
    by (cases "ShouldForwardForBounceReduction fc e s")
  with should_deferred[of fc e s] have d: "deferred_gesture_queue s1 = deferred_gesture_queue s" by simp
  show ?thesis
  proof (cases b1)
    case True
    with a p have "ForwardGestureEvent dc fc cl e s1 = Inr s'"
      by (simp add: Debounce_cases[OF p] split: if_splits sum.splits)
    from Forward_frame(2)[OF this] d show ?thesis by simp
  next
    case False
    with a p d show ?thesis
      by (simp add: Debounce_cases[OF p] split: if_splits)
  qed
qed

lemma flush_deferred:
  "SendScrollEndingEventsNow dc fc cl t = Inr s' \<Longrightarrow> deferred_gesture_queue s' = deferred_gesture_queue t"
  using loop_deferred[of dc fc cl "debouncing_deferral_queue t"
        "t\<lparr>scrolling_in_progress := False, debouncing_deferral_queue := []\<rparr>" s']
  by (auto simp: SendScrollEndingEventsNow_def Let_def split: if_splits)

lemma fire_deferred:
  "debounce_deferring_timer_fires dc fc cl s = Inr s' \<Longrightarrow> deferred_gesture_queue s' = deferred_gesture_queue s"
  using flush_deferred[of dc fc cl "s\<lparr>debounce_deferring_timer := (debounce_deferring_timer s)\<lparr>timer_running := False\<rparr>\<rparr>" s']
  by (auto simp: debounce_deferring_timer_fires_def split: if_splits)

lemma stash_all:
  "deferred_gesture_queue (fold QueueDeferredEvents es t) = deferred_gesture_queue t @ es"
  by (induction es arbitrary: t) (simp_all add: QueueDeferredEvents_def)

section \<open>The deferred-event side queue\<close>

text \<open>
  C9: whatever was stashed with \<open>QueueDeferredEvents\<close> since the last
  \<open>TakeDeferredEvents\<close> (or since the queue was created) is what the next
  \<open>TakeDeferredEvents\<close> returns, in stash order; the side queue is empty afterwards,
  so a second take returns nothing. No other operation of the queue (acknowledgment
  processing, fling filtering, debouncing, the flush when the timer fires) changes the side
  queue.
\<close>

theorem deferred_side_queue_take_all:
  "fst (TakeDeferredEvents (fold QueueDeferredEvents es s)) = deferred_gesture_queue s @ es
   \<and> fst (TakeDeferredEvents (fold QueueDeferredEvents es (snd (TakeDeferredEvents s)))) = es
   \<and> fst (TakeDeferredEvents (fold QueueDeferredEvents es (GestureEventQueue_new interval fling))) = es
   \<and> deferred_gesture_queue (snd (TakeDeferredEvents s)) = []
   \<and> fst (TakeDeferredEvents (snd (TakeDeferredEvents s))) = []
   \<and> deferred_gesture_queue (ProcessGestureAck cl src res ty lat s) = deferred_gesture_queue s
   \<and> deferred_gesture_queue (snd (FlingControllerFilterEvent fc e s)) = deferred_gesture_queue s
   \<and> deferred_gesture_queue (snd (ShouldForwardForBounceReduction fc e s)) = deferred_gesture_queue s
   \<and> (case DebounceOrForwardEvent dc fc cl e s of
        Inl f \<Rightarrow> True | Inr (b, s') \<Rightarrow> deferred_gesture_queue s' = deferred_gesture_queue s)
   \<and> (case SendScrollEndingEventsNow dc fc cl s of
        Inl f \<Rightarrow> True | Inr s' \<Rightarrow> deferred_gesture_queue s' = deferred_gesture_queue s)
   \<and> (case debounce_deferring_timer_fires dc fc cl s of
        Inl f \<Rightarrow> True | Inr s' \<Rightarrow> deferred_gesture_queue s' = deferred_gesture_queue s)"
proof -
  have debounce: "case DebounceOrForwardEvent dc fc cl e s of
        Inl f \<Rightarrow> True | Inr (b, s') \<Rightarrow> deferred_gesture_queue s' = deferred_gesture_queue s"
    using Debounce_deferred[of dc fc cl e s]
    by (cases "DebounceOrForwardEvent dc fc cl e s") auto
  have flush: "case SendScrollEndingEventsNow dc fc cl s of
        Inl f \<Rightarrow> True | Inr s' \<Rightarrow> deferred_gesture_queue s' = deferred_gesture_queue s"
    using flush_deferred[of dc fc cl s]
    by (cases "SendScrollEndingEventsNow dc fc cl s") auto
  have fire: "case debounce_deferring_timer_fires dc fc cl s of
        Inl f \<Rightarrow> True | Inr s' \<Rightarrow> deferred_gesture_queue s' = deferred_gesture_queue s"
    using fire_deferred[of dc fc cl s]
    by (cases "debounce_deferring_timer_fires dc fc cl s") auto
  have filter: "deferred_gesture_queue (snd (FlingControllerFilterEvent fc e s)) = deferred_gesture_queue s"
    by (simp add: FlingControllerFilterEvent_def split: prod.splits bool.splits)
  have ack: "deferred_gesture_queue (ProcessGestureAck cl src res ty lat s) = deferred_gesture_queue s"
    using ack_frame_all(1)[of s cl src res ty lat] by (simp add: ack_frame_def)
  have take: "fst (TakeDeferredEvents (fold QueueDeferredEvents es s)) = deferred_gesture_queue s @ es"
    "fst (TakeDeferredEvents (fold QueueDeferredEvents es (snd (TakeDeferredEvents s)))) = es"
    "fst (TakeDeferredEvents (fold QueueDeferredEvents es (GestureEventQueue_new interval fling))) = es"
    "deferred_gesture_queue (snd (TakeDeferredEvents s)) = []"
    "fst (TakeDeferredEvents (snd (TakeDeferredEvents s))) = []"
    by (simp_all add: stash_all TakeDeferredEvents_def GestureEventQueue_new_def)
  from take debounce flush fire filter ack should_deferred[of fc e s] show ?thesis
    by blast
qed

subsection \<open>Conservation of the forwarded events\<close>

lemma pending_keys_scan [simp]:
  "map (\<lambda>p. event_key (gesture p)) (ack_first_outstanding src res ty lat ps)
     = map (\<lambda>p. event_key (gesture p)) ps"
  by (induction ps) (simp_all add: set_ack_info_def event_key_def)

lemma ack_conservation:
  "acked_keys (client_calls (ProcessGestureAck cl src res ty lat s))
      @ pending_keys (ProcessGestureAck cl src res ty lat s)
    = acked_keys (client_calls s) @ pending_keys s"
  "acked_keys (client_calls (AckCompletedEvents cl s)) @ pending_keys (AckCompletedEvents cl s)
    = acked_keys (client_calls s) @ pending_keys s"
  "acked_keys (client_calls (AckCompletedEvents_loop cl s)) @ pending_keys (AckCompletedEvents_loop cl s)
    = acked_keys (client_calls s) @ pending_keys s"
  "acked_keys (client_calls (AckGestureEventToClient cl e osrc ores s))
      @ pending_keys (AckGestureEventToClient cl e osrc ores s)
    = acked_keys (client_calls s) @ event_key e # pending_keys s"
  "acked_keys (client_calls (client_acks cl as s)) @ pending_keys (client_acks cl as s)
    = acked_keys (client_calls s) @ pending_keys s"
proof (induction cl src res ty lat s and cl s and cl s and cl e osrc ores s and cl as s rule: ack_induct)
  case (1 cl src res ty lat s)
  then show ?case
    by (auto simp: ProcessGestureAck.simps pending_keys_def)
next
  case (2 cl s)
  then show ?case
    by (auto simp: AckCompletedEvents.simps pending_keys_def)
next
  case (3 cl s)
  show ?case
  proof (cases "sent_events_awaiting_ack s")
    case Nil
    then show ?thesis by (simp add: AckCompletedEvents_loop.simps)
  next
    case (Cons p ps)
    show ?thesis
    proof (cases "ack_state p = INPUT_EVENT_ACK_STATE_UNKNOWN")
      case True
      with Cons show ?thesis by (simp add: AckCompletedEvents_loop.simps)
    next
      case False
      from 3(1)[OF Cons False] 3(2)[OF Cons False] Cons False show ?thesis
        by (simp add: AckCompletedEvents_loop.simps pending_keys_def)
    qed
  qed
next
  case (4 cl e src res s)
  then show ?case
    by (simp add: AckGestureEventToClient.simps pending_keys_def acked_keys_def)
next
  case (5 cl s)
  then show ?case by simp
next
  case (6 cl src res ty lat as s)
  then show ?case
    by simp
qed

lemma ack_calls_prefix:
  "prefix (client_calls s) (client_calls (ProcessGestureAck cl src res ty lat s))"
  "prefix (client_calls s) (client_calls (AckCompletedEvents cl s))"
  "prefix (client_calls s) (client_calls (AckCompletedEvents_loop cl s))"
  "prefix (client_calls s) (client_calls (AckGestureEventToClient cl e osrc ores s))"
  "prefix (client_calls s) (client_calls (client_acks cl as s))"
proof (induction cl src res ty lat s and cl s and cl s and cl e osrc ores s and cl as s rule: ack_induct)
  case (1 cl src res ty lat s)
  then show ?case
    by (auto simp: ProcessGestureAck.simps)
next
  case (2 cl s)
  then show ?case
    by (auto simp: AckCompletedEvents.simps)
next
  case (3 cl s)
  show ?case
  proof (cases "sent_events_awaiting_ack s")
    case Nil
    then show ?thesis by (simp add: AckCompletedEvents_loop.simps)
  next
    case (Cons p ps)
    show ?thesis
    proof (cases "ack_state p = INPUT_EVENT_ACK_STATE_UNKNOWN")
      case True
      with Cons show ?thesis by (simp add: AckCompletedEvents_loop.simps)
    next
      case False
      from 3(1)[OF Cons False] 3(2)[OF Cons False] Cons False show ?thesis
        by (auto simp: AckCompletedEvents_loop.simps intro: prefix_order.trans)
    qed
  qed
next
  case (4 cl e src res s)
  then show ?case
    by (auto simp: AckGestureEventToClient.simps dest: append_prefixD)
next
  case (5 cl s)
  then show ?case by simp
next
  case (6 cl src res ty lat as s)
  then show ?case
    by (auto intro: prefix_order.trans)
qed

lemma send_conservation:
  "acked_keys (client_calls (client_SendGestureEventImmediately cl e s))
      @ pending_keys (client_SendGestureEventImmediately cl e s)
    = acked_keys (client_calls s) @ pending_keys s"
  using ack_conservation(5)[of cl "cl (client_calls s @ [SendGestureEventImmediately e])"
      "s\<lparr>client_calls := client_calls s @ [SendGestureEventImmediately e]\<rparr>"]
  by (simp add: client_SendGestureEventImmediately_def pending_keys_def acked_keys_def)

lemma Forward_conservation:
  assumes "ForwardGestureEvent dc fc cl e s = Inr s'"
  shows "acked_keys (client_calls s') @ pending_keys s'
    = acked_keys (client_calls s) @ pending_keys s @ [event_key e]"
proof -
  let ?t = "s\<lparr>sent_events_awaiting_ack := sent_events_awaiting_ack s @ [awaiting_ack e],
          fling_controller := observer_update fc e (fling_controller s)\<rparr>"
  from assms Forward_admissible[OF Forward_Inr_admissible[OF assms], of fc cl s]
  have "s' = client_SendGestureEventImmediately cl e ?t" by simp
  with send_conservation[of cl e ?t] show ?thesis
    by (simp add: pending_keys_def awaiting_ack_def)
qed

section \<open>Debouncing: bypasses and scroll updates\<close>

text \<open>
  C10: while the fling controller reports a fling in progress,
  \<open>ShouldForwardForBounceReduction\<close> answers true and returns the queue as it was: the
  scrolling flag, the timer (not started, reset or stopped) and the debouncing deferral
  queue (not cleared, also for a scroll update) are untouched. This holds for every
  debounce interval.
\<close>

theorem fling_bypass_keeps_debounce_state:
  assumes "fling_in_progress fc (fling_controller s)"
  shows "ShouldForwardForBounceReduction fc e s = (True, s)
    \<and> scrolling_in_progress (snd (ShouldForwardForBounceReduction fc e s)) = scrolling_in_progress s
    \<and> debounce_deferring_timer (snd (ShouldForwardForBounceReduction fc e s)) = debounce_deferring_timer s
    \<and> debouncing_deferral_queue (snd (ShouldForwardForBounceReduction fc e s)) = debouncing_deferral_queue s"
  using assms by (simp add: ShouldForwardForBounceReduction_def)

theorem fling_bypass_keeps_debounce_state_witness:
  "fling_in_progress passive_fling_controller
     (fling_controller ((GestureEventQueue_new 100 True)
        \<lparr>scrolling_in_progress := True, debouncing_deferral_queue := [gesture_event kGestureTap 7]\<rparr>))
   \<and> snd (ShouldForwardForBounceReduction passive_fling_controller (gesture_event kGestureScrollUpdate 1)
        ((GestureEventQueue_new 100 True)
          \<lparr>scrolling_in_progress := True, debouncing_deferral_queue := [gesture_event kGestureTap 7]\<rparr>))
      = (GestureEventQueue_new 100 True)
          \<lparr>scrolling_in_progress := True, debouncing_deferral_queue := [gesture_event kGestureTap 7]\<rparr>
   \<and> debouncing_deferral_queue (snd (ShouldForwardForBounceReduction passive_fling_controller
        (gesture_event kGestureScrollUpdate 1)
        ((GestureEventQueue_new 100 True)
          \<lparr>scrolling_in_progress := True, debouncing_deferral_queue := [gesture_event kGestureTap 7]\<rparr>)))
      = [gesture_event kGestureTap 7]"
  using fling_bypass_keeps_debounce_state[of passive_fling_controller
      "(GestureEventQueue_new 100 True)
        \<lparr>scrolling_in_progress := True, debouncing_deferral_queue := [gesture_event kGestureTap 7]\<rparr>"
      "gesture_event kGestureScrollUpdate 1"]
  by (simp add: passive_fling_controller_def GestureEventQueue_new_def)

text \<open>
  C6: when the debounce interval is zero (or negative: the guard is \<open>\<le>\<close>) or a
  fling is in progress, \<open>DebounceOrForwardEvent\<close> forwards every admissible event at once
  and returns true, whatever the scrolling flag: the result is that of
  \<open>ForwardGestureEvent\<close> on the unchanged queue, the event is the one new event sent to
  the client and the one new entry of the buffer, and the debounce state is as before.
\<close>

theorem debounce_disabled_or_fling_forwards:
  assumes "debounce_interval s \<le> 0 \<or> fling_in_progress fc (fling_controller s)"
    and "admissible dc e"
  shows "\<exists>s'. DebounceOrForwardEvent dc fc cl e s = Inr (True, s')
    \<and> ForwardGestureEvent dc fc cl e s = Inr s'
    \<and> sent_to_client (client_calls s') = sent_to_client (client_calls s) @ [e]
    \<and> acked_keys (client_calls s') @ pending_keys s'
        = acked_keys (client_calls s) @ pending_keys s @ [event_key e]
    \<and> scrolling_in_progress s' = scrolling_in_progress s
    \<and> debouncing_deferral_queue s' = debouncing_deferral_queue s
    \<and> debounce_deferring_timer s' = debounce_deferring_timer s"
proof -
  from assms(1) have sf: "ShouldForwardForBounceReduction fc e s = (True, s)"
    by (auto simp: ShouldForwardForBounceReduction_def)
  from Forward_admissible[OF assms(2)] obtain s' where
    fw: "ForwardGestureEvent dc fc cl e s = Inr s'" by blast
  from fw assms(2) have "DebounceOrForwardEvent dc fc cl e s = Inr (True, s')"
    by (simp add: Debounce_cases[OF sf])
  with fw Forward_frame[OF fw] Forward_conservation[OF fw] show ?thesis
    by simp
qed

theorem debounce_disabled_or_fling_forwards_witness:
  "(debounce_interval ((GestureEventQueue_new 0 False)\<lparr>scrolling_in_progress := True\<rparr>) \<le> 0
      \<or> fling_in_progress passive_fling_controller
          (fling_controller ((GestureEventQueue_new 0 False)\<lparr>scrolling_in_progress := True\<rparr>)))
   \<and> admissible True (gesture_event kGestureTap 3)
   \<and> (\<exists>s'. DebounceOrForwardEvent True passive_fling_controller quiet_client (gesture_event kGestureTap 3)
          ((GestureEventQueue_new 0 False)\<lparr>scrolling_in_progress := True\<rparr>) = Inr (True, s')
        \<and> sent_to_client (client_calls s') = [gesture_event kGestureTap 3]
        \<and> scrolling_in_progress s')"
  using debounce_disabled_or_fling_forwards[of
      "(GestureEventQueue_new 0 False)\<lparr>scrolling_in_progress := True\<rparr>"
      passive_fling_controller True "gesture_event kGestureTap 3" quiet_client]
  by (auto simp: GestureEventQueue_new_def admissible_def gesture_event_def)

lemma ShouldForward_scroll_update:
  assumes "0 < debounce_interval s" and "\<not> fling_in_progress fc (fling_controller s)"
    and "event_type e = kGestureScrollUpdate"
  shows "ShouldForwardForBounceReduction fc e s =
     (True,
      s\<lparr>debounce_deferring_timer :=
           (if \<not> scrolling_in_progress s
            then timer_Start (debounce_interval s) (debounce_deferring_timer s)
            else timer_Reset (debounce_deferring_timer s)),
         scrolling_in_progress := True,
         debouncing_deferral_queue := []\<rparr>)"
  using assms by (simp add: ShouldForwardForBounceReduction_def)

text \<open>
  C4: with a quiet period in force (a positive debounce interval; the guard takes any
  interval \<open>\<le> 0\<close> as disabled) and no fling in progress, a scroll update is forwarded
  at once and \<open>DebounceOrForwardEvent\<close> returns true. If the scrolling flag was unset,
  the timer is started with the debounce interval; if it was set, the timer is reset and
  not started anew. Either way the flag is set afterwards and the debouncing deferral
  queue is empty: the events it held are dropped. They are not sent (the scroll update is
  the only new event sent to the client), they do not enter the buffer (whose entries and
  reported events are the old ones and the scroll update), and the side queue is as before.
\<close>

theorem scroll_update_restarts_quiet_period:
  assumes "0 < debounce_interval s" and "\<not> fling_in_progress fc (fling_controller s)"
    and "event_type e = kGestureScrollUpdate"
  shows "\<exists>s'. DebounceOrForwardEvent dc fc cl e s = Inr (True, s')
    \<and> scrolling_in_progress s'
    \<and> debouncing_deferral_queue s' = []
    \<and> deferred_gesture_queue s' = deferred_gesture_queue s
    \<and> debounce_deferring_timer s' =
        (if scrolling_in_progress s then timer_Reset (debounce_deferring_timer s)
         else timer_Start (debounce_interval s) (debounce_deferring_timer s))
    \<and> timer_calls (debounce_deferring_timer s') =
        timer_calls (debounce_deferring_timer s)
          @ [if scrolling_in_progress s then TimerReset else TimerStart (debounce_interval s)]
    \<and> timer_running (debounce_deferring_timer s')
    \<and> sent_to_client (client_calls s') = sent_to_client (client_calls s) @ [e]
    \<and> acked_keys (client_calls s') @ pending_keys s'
        = acked_keys (client_calls s) @ pending_keys s @ [event_key e]"
proof -
  let ?t = "s\<lparr>debounce_deferring_timer :=
           (if \<not> scrolling_in_progress s
            then timer_Start (debounce_interval s) (debounce_deferring_timer s)
            else timer_Reset (debounce_deferring_timer s)),
         scrolling_in_progress := True,
         debouncing_deferral_queue := []\<rparr>"
  have sf: "ShouldForwardForBounceReduction fc e s = (True, ?t)"
    by (rule ShouldForward_scroll_update[OF assms])
  from assms(3) have adm: "admissible dc e" by (simp add: admissible_def)
  from Forward_admissible[OF adm] obtain s' where
    fw: "ForwardGestureEvent dc fc cl e ?t = Inr s'" by blast
  from fw adm have d: "DebounceOrForwardEvent dc fc cl e s = Inr (True, s')"
    by (simp add: Debounce_cases[OF sf])
  have t: "timer_calls (debounce_deferring_timer s') =
        timer_calls (debounce_deferring_timer s)
          @ [if scrolling_in_progress s then TimerReset else TimerStart (debounce_interval s)]"
    "timer_running (debounce_deferring_timer s')"
    using Forward_frame(6)[OF fw] by (simp_all add: timer_Start_def timer_Reset_def)
  from d t Forward_frame[OF fw] Forward_conservation[OF fw] show ?thesis
    by (simp add: pending_keys_def)
qed

theorem scroll_update_restarts_quiet_period_witness:
  "0 < debounce_interval (scrolling_queue [gesture_event kGestureTap 7])
   \<and> \<not> fling_in_progress passive_fling_controller
        (fling_controller (scrolling_queue [gesture_event kGestureTap 7]))
   \<and> event_type (gesture_event kGestureScrollUpdate 2) = kGestureScrollUpdate
   \<and> (\<exists>s'. DebounceOrForwardEvent True passive_fling_controller quiet_client
          (gesture_event kGestureScrollUpdate 2) (scrolling_queue [gesture_event kGestureTap 7])
          = Inr (True, s')
        \<and> debouncing_deferral_queue s' = []
        \<and> timer_calls (debounce_deferring_timer s') = [TimerStart 100, TimerReset]
        \<and> sent_to_client (client_calls s')
            = [gesture_event kGestureScrollUpdate 1, gesture_event kGestureScrollUpdate 2])"
  using scroll_update_restarts_quiet_period[of "scrolling_queue [gesture_event kGestureTap 7]"
      passive_fling_controller "gesture_event kGestureScrollUpdate 2" True quiet_client]
  by (auto simp: scrolling_queue_def GestureEventQueue_new_def passive_fling_controller_def
      gesture_event_def)

section \<open>Matching an acknowledgment\<close>

lemma scan_no_match:
  "\<forall>q\<in>set ps. \<not> awaits_ack_of ty q \<Longrightarrow> ack_first_outstanding src res ty lat ps = ps"
  by (induction ps) (auto simp: awaits_ack_of_def)

lemma scan_first_match:
  "\<forall>q\<in>set pre. \<not> awaits_ack_of ty q \<Longrightarrow> awaits_ack_of ty p
    \<Longrightarrow> ack_first_outstanding src res ty lat (pre @ p # post) = pre @ acknowledged src res lat p # post"
  by (induction pre) (auto simp: awaits_ack_of_def acknowledged_def set_ack_info_def)

lemma flag_reset_id: "\<not> processing_acks s \<Longrightarrow> s\<lparr>processing_acks := False\<rparr> = s"
  by (cases s) simp

lemma quiet_AckGestureEventToClient:
  "AckGestureEventToClient quiet_client e src res s
     = s\<lparr>client_calls := client_calls s @ [OnGestureEventAck e src res]\<rparr>"
  by (simp add: AckGestureEventToClient.simps quiet_client_def)

lemma quiet_loop:
  "sent_events_awaiting_ack s = ps \<Longrightarrow>
   AckCompletedEvents_loop quiet_client s
     = s\<lparr>sent_events_awaiting_ack := dropWhile ack_known ps,
          client_calls := client_calls s @ map report_of (takeWhile ack_known ps)\<rparr>"
proof (induction ps arbitrary: s)
  case Nil
  then show ?case by (simp add: AckCompletedEvents_loop.simps)
next
  case (Cons p ps)
  show ?case
  proof (cases "ack_state p = INPUT_EVENT_ACK_STATE_UNKNOWN")
    case True
    with Cons.prems show ?thesis
      by (simp add: AckCompletedEvents_loop.simps ack_known_def)
  next
    case False
    let ?t = "s\<lparr>sent_events_awaiting_ack := ps,
        client_calls := client_calls s @ [report_of p]\<rparr>"
    have "AckCompletedEvents_loop quiet_client s = AckCompletedEvents_loop quiet_client ?t"
      using Cons.prems False
      by (simp add: AckCompletedEvents_loop.simps[of quiet_client s] quiet_AckGestureEventToClient report_of_def)
    also have "\<dots> = ?t\<lparr>sent_events_awaiting_ack := dropWhile ack_known ps,
          client_calls := client_calls ?t @ map report_of (takeWhile ack_known ps)\<rparr>"
      by (rule Cons.IH) simp
    finally show ?thesis
      using Cons.prems False ack_known_def[of p] by simp
  qed
qed

lemma quiet_AckCompletedEvents:
  "\<not> processing_acks s \<Longrightarrow>
   AckCompletedEvents quiet_client s
     = s\<lparr>sent_events_awaiting_ack := dropWhile ack_known (sent_events_awaiting_ack s),
          client_calls := client_calls s @ map report_of (takeWhile ack_known (sent_events_awaiting_ack s))\<rparr>"
  using flag_reset_id[of s]
  by (simp add: AckCompletedEvents.simps quiet_loop[of _ "sent_events_awaiting_ack s"])

lemma AckCompletedEvents_nested [simp]: "processing_acks s \<Longrightarrow> AckCompletedEvents cl s = s"
  by (simp add: AckCompletedEvents.simps)

lemma AckCompletedEvents_drained: "front_outstanding s \<Longrightarrow> AckCompletedEvents cl s = s"
  by (cases "sent_events_awaiting_ack s")
    (auto simp: front_outstanding_def AckCompletedEvents.simps AckCompletedEvents_loop.simps flag_reset_id)

lemma pending_suffix:
  "suffix (pending_keys (ProcessGestureAck cl src res ty lat s)) (pending_keys s)"
proof -
  from ack_calls_prefix(1)[of s cl src res ty lat] obtain new where
    n: "client_calls (ProcessGestureAck cl src res ty lat s) = client_calls s @ new"
    by (auto simp: prefix_def)
  with ack_conservation(1)[of cl src res ty lat s]
  have "pending_keys s = acked_keys new @ pending_keys (ProcessGestureAck cl src res ty lat s)"
    by simp
  then show ?thesis by (simp add: suffix_def)
qed

text \<open>
  C7: on a non-empty buffer \<open>ProcessGestureAck\<close> runs the scan and then the release
  pass. The scan changes exactly one entry, the first from the front whose status is
  Unknown and whose type is the given one, wherever it stands: the latency is merged into
  its event and its status and source are set; if no entry matches, the buffer is
  unchanged. With a client that sends nothing back, what the call leaves in the buffer is
  the scanned buffer without some entries at its front, so no other entry is changed. For
  every client the entries left are a final segment of the entries before, in the same
  order.
\<close>

theorem ack_marks_first_outstanding_of_kind:
  "(ps = pre @ p # post \<and> (\<forall>q\<in>set pre. \<not> awaits_ack_of ty q) \<and> awaits_ack_of ty p
      \<longrightarrow> ack_first_outstanding src res ty lat ps = pre @ acknowledged src res lat p # post)
   \<and> ((\<forall>q\<in>set ps. \<not> awaits_ack_of ty q) \<longrightarrow> ack_first_outstanding src res ty lat ps = ps)
   \<and> (sent_events_awaiting_ack s \<noteq> [] \<longrightarrow>
        ProcessGestureAck cl src res ty lat s
          = AckCompletedEvents cl
              (s\<lparr>sent_events_awaiting_ack := ack_first_outstanding src res ty lat (sent_events_awaiting_ack s)\<rparr>))
   \<and> (sent_events_awaiting_ack s \<noteq> [] \<longrightarrow>
        (\<exists>k. sent_events_awaiting_ack (ProcessGestureAck quiet_client src res ty lat s)
            = drop k (ack_first_outstanding src res ty lat (sent_events_awaiting_ack s))))
   \<and> suffix (pending_keys (ProcessGestureAck cl src res ty lat s)) (pending_keys s)"
proof -
  have drop: "\<exists>k. sent_events_awaiting_ack (ProcessGestureAck quiet_client src res ty lat s)
            = drop k (ack_first_outstanding src res ty lat (sent_events_awaiting_ack s))"
    if ne: "sent_events_awaiting_ack s \<noteq> []"
  proof (cases "processing_acks s")
    case True
    with ne have "sent_events_awaiting_ack (ProcessGestureAck quiet_client src res ty lat s)
        = drop 0 (ack_first_outstanding src res ty lat (sent_events_awaiting_ack s))"
      by (simp add: ProcessGestureAck.simps)
    then show ?thesis by blast
  next
    case False
    with ne have "sent_events_awaiting_ack (ProcessGestureAck quiet_client src res ty lat s)
        = dropWhile ack_known (ack_first_outstanding src res ty lat (sent_events_awaiting_ack s))"
      by (simp add: ProcessGestureAck.simps quiet_AckCompletedEvents)
    then show ?thesis
      by (metis dropWhile_eq_drop)
  qed
  show ?thesis
    using drop pending_suffix[of cl src res ty lat s]
    by (auto simp: scan_no_match scan_first_match ProcessGestureAck.simps)
qed

text \<open>
  C8: on an empty buffer \<open>ProcessGestureAck\<close> only records the diagnostic: the buffer
  stays empty, the client is not called, and the call returns normally. On a non-empty
  buffer with no Unknown entry of the given type the scan changes nothing and the call is
  just the release pass; when a release pass is already running, or the buffer is drained
  (its front entry still Unknown, as after every complete call), nothing is released and
  the queue is exactly as before.
\<close>

theorem unexpected_or_unmatched_ack:
  "(sent_events_awaiting_ack s = [] \<longrightarrow>
      ProcessGestureAck cl src res ty lat s = s\<lparr>unexpected_acks := unexpected_acks s @ [ty]\<rparr>)
   \<and> (sent_events_awaiting_ack s \<noteq> [] \<and> (\<forall>q\<in>set (sent_events_awaiting_ack s). \<not> awaits_ack_of ty q)
        \<longrightarrow> ProcessGestureAck cl src res ty lat s = AckCompletedEvents cl s)
   \<and> (sent_events_awaiting_ack s \<noteq> [] \<and> (\<forall>q\<in>set (sent_events_awaiting_ack s). \<not> awaits_ack_of ty q)
        \<and> (processing_acks s \<or> front_outstanding s)
        \<longrightarrow> ProcessGestureAck cl src res ty lat s = s)"
  using AckCompletedEvents_drained[of s cl]
  by (auto simp: ProcessGestureAck.simps scan_no_match)

theorem ack_marks_first_outstanding_of_kind_witness:
  "ack_first_outstanding 1 INPUT_EVENT_ACK_STATE_CONSUMED kGestureScrollUpdate [5]
      [pending_entry kGestureScrollBegin 1 INPUT_EVENT_ACK_STATE_UNKNOWN,
       pending_entry kGestureScrollUpdate 2 INPUT_EVENT_ACK_STATE_UNKNOWN,
       pending_entry kGestureScrollUpdate 3 INPUT_EVENT_ACK_STATE_UNKNOWN]
    = [pending_entry kGestureScrollBegin 1 INPUT_EVENT_ACK_STATE_UNKNOWN,
       acknowledged 1 INPUT_EVENT_ACK_STATE_CONSUMED [5]
         (pending_entry kGestureScrollUpdate 2 INPUT_EVENT_ACK_STATE_UNKNOWN),
       pending_entry kGestureScrollUpdate 3 INPUT_EVENT_ACK_STATE_UNKNOWN]
   \<and> \<not> awaits_ack_of kGestureScrollUpdate (pending_entry kGestureScrollBegin 1 INPUT_EVENT_ACK_STATE_UNKNOWN)
   \<and> awaits_ack_of kGestureScrollUpdate (pending_entry kGestureScrollUpdate 2 INPUT_EVENT_ACK_STATE_UNKNOWN)
   \<and> sent_events_awaiting_ack
        (ProcessGestureAck quiet_client 1 INPUT_EVENT_ACK_STATE_CONSUMED kGestureScrollUpdate [5]
          (queue_awaiting
            [pending_entry kGestureScrollBegin 1 INPUT_EVENT_ACK_STATE_UNKNOWN,
             pending_entry kGestureScrollUpdate 2 INPUT_EVENT_ACK_STATE_UNKNOWN,
             pending_entry kGestureScrollUpdate 3 INPUT_EVENT_ACK_STATE_UNKNOWN]))
      = [pending_entry kGestureScrollBegin 1 INPUT_EVENT_ACK_STATE_UNKNOWN,
         acknowledged 1 INPUT_EVENT_ACK_STATE_CONSUMED [5]
           (pending_entry kGestureScrollUpdate 2 INPUT_EVENT_ACK_STATE_UNKNOWN),
         pending_entry kGestureScrollUpdate 3 INPUT_EVENT_ACK_STATE_UNKNOWN]"
  using ack_marks_first_outstanding_of_kind[where
      ps = "[pending_entry kGestureScrollBegin 1 INPUT_EVENT_ACK_STATE_UNKNOWN,
             pending_entry kGestureScrollUpdate 2 INPUT_EVENT_ACK_STATE_UNKNOWN,
             pending_entry kGestureScrollUpdate 3 INPUT_EVENT_ACK_STATE_UNKNOWN]"
      and pre = "[pending_entry kGestureScrollBegin 1 INPUT_EVENT_ACK_STATE_UNKNOWN]"
      and p = "pending_entry kGestureScrollUpdate 2 INPUT_EVENT_ACK_STATE_UNKNOWN"
      and post = "[pending_entry kGestureScrollUpdate 3 INPUT_EVENT_ACK_STATE_UNKNOWN]"
      and ty = kGestureScrollUpdate and src = 1 and res = INPUT_EVENT_ACK_STATE_CONSUMED
      and lat = "[5]" and cl = quiet_client
      and s = "queue_awaiting
            [pending_entry kGestureScrollBegin 1 INPUT_EVENT_ACK_STATE_UNKNOWN,
             pending_entry kGestureScrollUpdate 2 INPUT_EVENT_ACK_STATE_UNKNOWN,
             pending_entry kGestureScrollUpdate 3 INPUT_EVENT_ACK_STATE_UNKNOWN]"]
  by (simp add: awaits_ack_of_def pending_entry_def gesture_event_def queue_awaiting_def
      GestureEventQueue_new_def quiet_AckCompletedEvents ack_known_def)

theorem unexpected_or_unmatched_ack_witness:
  "ProcessGestureAck quiet_client 1 INPUT_EVENT_ACK_STATE_CONSUMED kGestureTap [] (queue_awaiting [])
     = (queue_awaiting [])\<lparr>unexpected_acks := [kGestureTap]\<rparr>
   \<and> front_outstanding (queue_awaiting [pending_entry kGestureScrollBegin 1 INPUT_EVENT_ACK_STATE_UNKNOWN])
   \<and> \<not> awaits_ack_of kGestureTap (pending_entry kGestureScrollBegin 1 INPUT_EVENT_ACK_STATE_UNKNOWN)
   \<and> ProcessGestureAck quiet_client 1 INPUT_EVENT_ACK_STATE_CONSUMED kGestureTap []
        (queue_awaiting [pending_entry kGestureScrollBegin 1 INPUT_EVENT_ACK_STATE_UNKNOWN])
     = queue_awaiting [pending_entry kGestureScrollBegin 1 INPUT_EVENT_ACK_STATE_UNKNOWN]"
  using unexpected_or_unmatched_ack[of "queue_awaiting []" quiet_client 1
      INPUT_EVENT_ACK_STATE_CONSUMED kGestureTap "[]"]
    unexpected_or_unmatched_ack[of
      "queue_awaiting [pending_entry kGestureScrollBegin 1 INPUT_EVENT_ACK_STATE_UNKNOWN]" quiet_client 1
      INPUT_EVENT_ACK_STATE_CONSUMED kGestureTap "[]"]
  by (simp add: awaits_ack_of_def pending_entry_def gesture_event_def queue_awaiting_def
      GestureEventQueue_new_def front_outstanding_def AckCompletedEvents.simps
      AckCompletedEvents_loop.simps)

section \<open>Ordered release of acknowledgments\<close>

subsection \<open>The release pass drains the buffer\<close>

lemma loop_front_all:
  "processing_acks s \<or> front_outstanding (ProcessGestureAck cl src res ty lat s)"
  "processing_acks s \<or> front_outstanding (AckCompletedEvents cl s)"
  "case sent_events_awaiting_ack (AckCompletedEvents_loop cl s) of
     [] \<Rightarrow> True | p # ps \<Rightarrow> ack_state p = INPUT_EVENT_ACK_STATE_UNKNOWN"
  "True \<or> AckGestureEventToClient cl e osrc ores s = s"
  "True \<or> client_acks cl as s = s"
proof (induction cl src res ty lat s and cl s and cl s and cl e osrc ores s and cl as s rule: ack_induct)
  case (1 cl src res ty lat s)
  then show ?case
    by (auto simp: ProcessGestureAck.simps front_outstanding_def)
next
  case (2 cl s)
  then show ?case
    using ack_frame_all(3)[of "s\<lparr>processing_acks := True\<rparr>" cl]
    by (auto simp: AckCompletedEvents.simps front_outstanding_def ack_frame_def)
next
  case (3 cl s)
  show ?case
  proof (cases "sent_events_awaiting_ack s")
    case Nil
    then show ?thesis by (simp add: AckCompletedEvents_loop.simps)
  next
    case (Cons p ps)
    show ?thesis
    proof (cases "ack_state p = INPUT_EVENT_ACK_STATE_UNKNOWN")
      case True
      with Cons show ?thesis by (simp add: AckCompletedEvents_loop.simps)
    next
      case False
      from 3(2)[OF Cons False] Cons False show ?thesis
        by (simp add: AckCompletedEvents_loop.simps[of cl s])
    qed
  qed
next
  case (4 cl e src res s)
  then show ?case by simp
next
  case (5 cl s)
  then show ?case by simp
next
  case (6 cl src res ty lat as s)
  then show ?case by simp
qed

lemma ProcessGestureAck_drains:
  "\<not> processing_acks s \<Longrightarrow> front_outstanding (ProcessGestureAck cl src res ty lat s)"
  using loop_front_all(1)[of s cl src res ty lat] by simp

lemma AckCompletedEvents_drains:
  "\<not> processing_acks s \<Longrightarrow> front_outstanding (AckCompletedEvents cl s)"
  using loop_front_all(2)[of s cl] by simp

lemma client_acks_drained:
  "front_outstanding s \<Longrightarrow> front_outstanding (client_acks cl as s)"
proof (induction as arbitrary: s)
  case Nil
  then show ?case by simp
next
  case (Cons a as)
  obtain src res ty lat where a: "a = (src, res, ty, lat)" by (cases a)
  from Cons.prems have "front_outstanding (ProcessGestureAck cl src res ty lat s)"
    by (intro ProcessGestureAck_drains) (simp add: front_outstanding_def)
  from Cons.IH[OF this] a show ?case by simp
qed

subsection \<open>Entries never return to Unknown\<close>

lemma settled_scan:
  "settled K ps \<Longrightarrow> settled K (ack_first_outstanding src res ty lat ps)"
  by (induction ps) (auto simp: settled_def ack_known_def set_ack_info_def)

lemma settled_scan_insert:
  "settled K ps \<Longrightarrow> distinct (map (\<lambda>p. event_type (gesture p)) ps)
    \<Longrightarrow> res \<noteq> INPUT_EVENT_ACK_STATE_UNKNOWN
    \<Longrightarrow> settled (insert ty K) (ack_first_outstanding src res ty lat ps)"
  by (induction ps) (auto simp: settled_def ack_known_def set_ack_info_def image_iff)

lemma settled_all:
  "settled K (sent_events_awaiting_ack s)
    \<Longrightarrow> settled K (sent_events_awaiting_ack (ProcessGestureAck cl src res ty lat s))"
  "settled K (sent_events_awaiting_ack s)
    \<Longrightarrow> settled K (sent_events_awaiting_ack (AckCompletedEvents cl s))"
  "settled K (sent_events_awaiting_ack s)
    \<Longrightarrow> settled K (sent_events_awaiting_ack (AckCompletedEvents_loop cl s))"
  "settled K (sent_events_awaiting_ack s)
    \<Longrightarrow> settled K (sent_events_awaiting_ack (AckGestureEventToClient cl e osrc ores s))"
  "settled K (sent_events_awaiting_ack s)
    \<Longrightarrow> settled K (sent_events_awaiting_ack (client_acks cl as s))"
proof (induction cl src res ty lat s and cl s and cl s and cl e osrc ores s and cl as s rule: ack_induct)
  case (1 cl src res ty lat s)
  then show ?case
    by (auto simp: ProcessGestureAck.simps settled_scan)
next
  case (2 cl s)
  then show ?case
    by (auto simp: AckCompletedEvents.simps)
next
  case (3 cl s)
  show ?case
  proof (cases "sent_events_awaiting_ack s")
    case Nil
    with 3(3) show ?thesis by (simp add: AckCompletedEvents_loop.simps)
  next
    case (Cons p ps)
    show ?thesis
    proof (cases "ack_state p = INPUT_EVENT_ACK_STATE_UNKNOWN")
      case True
      with Cons 3(3) show ?thesis by (simp add: AckCompletedEvents_loop.simps)
    next
      case False
      from 3(3) Cons have "settled K ps" by (simp add: settled_def)
      with 3(1)[OF Cons False] 3(2)[OF Cons False] Cons False show ?thesis
        by (simp add: AckCompletedEvents_loop.simps[of cl s])
    qed
  qed
next
  case (4 cl e src res s)
  then show ?case
    by (simp add: AckGestureEventToClient.simps)
next
  case (5 cl s)
  then show ?case by simp
next
  case (6 cl src res ty lat as s)
  then show ?case by simp
qed

lemma settled_ProcessGestureAck:
  assumes "settled K (sent_events_awaiting_ack s)"
    and "distinct (map fst (pending_keys s))"
    and "res \<noteq> INPUT_EVENT_ACK_STATE_UNKNOWN"
  shows "settled (insert ty K) (sent_events_awaiting_ack (ProcessGestureAck cl src res ty lat s))"
proof (cases "sent_events_awaiting_ack s")
  case Nil
  then show ?thesis by (simp add: ProcessGestureAck.simps settled_def)
next
  case (Cons p ps)
  from assms(2) have "distinct (map (\<lambda>p. event_type (gesture p)) (sent_events_awaiting_ack s))"
    by (simp add: pending_keys_def event_key_def comp_def)
  from settled_scan_insert[OF assms(1) this assms(3), of ty src lat] Cons show ?thesis
    using settled_all(2)[of "insert ty K"
        "s\<lparr>sent_events_awaiting_ack := ack_first_outstanding src res ty lat (sent_events_awaiting_ack s)\<rparr>" cl]
    by (simp add: ProcessGestureAck.simps)
qed

lemma distinct_suffix_types:
  "suffix xs ys \<Longrightarrow> distinct (map fst ys) \<Longrightarrow> distinct (map fst xs)"
  by (auto simp: suffix_def)

lemma settled_client_acks:
  assumes "settled K (sent_events_awaiting_ack s)"
    and "distinct (map fst (pending_keys s))"
    and "\<forall>a\<in>set as. ack_result a \<noteq> INPUT_EVENT_ACK_STATE_UNKNOWN"
  shows "settled (K \<union> ack_type ` set as) (sent_events_awaiting_ack (client_acks cl as s))"
  using assms
proof (induction as arbitrary: s K)
  case Nil
  then show ?case by simp
next
  case (Cons a as)
  obtain src res ty lat where a: "a = (src, res, ty, lat)" by (cases a)
  let ?t = "ProcessGestureAck cl src res ty lat s"
  from Cons.prems(3) a have r: "res \<noteq> INPUT_EVENT_ACK_STATE_UNKNOWN"
    by (simp add: ack_result_def)
  have 1: "settled (insert ty K) (sent_events_awaiting_ack ?t)"
    by (rule settled_ProcessGestureAck[OF Cons.prems(1,2) r])
  have 2: "distinct (map fst (pending_keys ?t))"
    by (rule distinct_suffix_types[OF pending_suffix Cons.prems(2)])
  from Cons.prems(3) have 3: "\<forall>a\<in>set as. ack_result a \<noteq> INPUT_EVENT_ACK_STATE_UNKNOWN" by simp
  from Cons.IH[OF 1 2 3] a show ?case
    by (simp add: ack_type_def)
qed

lemma acked_results_append [simp]:
  "acked_results (xs @ ys) = acked_results xs @ acked_results ys"
  by (simp add: acked_results_def)

lemma reports_known_from_prefix:
  "reports_known_from n s \<Longrightarrow> client_calls t = client_calls s @ cs
    \<Longrightarrow> INPUT_EVENT_ACK_STATE_UNKNOWN \<notin> set (acked_results cs)
    \<Longrightarrow> reports_known_from n t"
  by (simp add: reports_known_from_def)

lemma reports_known_from_sent [simp]:
  "reports_known_from n (s\<lparr>sent_events_awaiting_ack := ps\<rparr>) = reports_known_from n s"
  "reports_known_from n (s\<lparr>processing_acks := b\<rparr>) = reports_known_from n s"
  "reports_known_from n (s\<lparr>unexpected_acks := u\<rparr>) = reports_known_from n s"
  "reports_known_from n (s\<lparr>fling_controller := f\<rparr>) = reports_known_from n s"
  by (simp_all add: reports_known_from_def)

lemma reported_known_all:
  "reports_known_from n s \<Longrightarrow> reports_known_from n (ProcessGestureAck cl src res ty lat s)"
  "reports_known_from n s \<Longrightarrow> reports_known_from n (AckCompletedEvents cl s)"
  "reports_known_from n s \<Longrightarrow> reports_known_from n (AckCompletedEvents_loop cl s)"
  "reports_known_from n s \<Longrightarrow> ores \<noteq> INPUT_EVENT_ACK_STATE_UNKNOWN
    \<Longrightarrow> reports_known_from n (AckGestureEventToClient cl e osrc ores s)"
  "reports_known_from n s \<Longrightarrow> reports_known_from n (client_acks cl as s)"
proof (induction cl src res ty lat s and cl s and cl s and cl e osrc ores s and cl as s rule: ack_induct)
  case (1 cl src res ty lat s)
  then show ?case
    by (auto simp: ProcessGestureAck.simps)
next
  case (2 cl s)
  then show ?case
    by (auto simp: AckCompletedEvents.simps)
next
  case (3 cl s)
  show ?case
  proof (cases "sent_events_awaiting_ack s")
    case Nil
    with 3(3) show ?thesis by (simp add: AckCompletedEvents_loop.simps)
  next
    case (Cons p ps)
    show ?thesis
    proof (cases "ack_state p = INPUT_EVENT_ACK_STATE_UNKNOWN")
      case True
      with Cons 3(3) show ?thesis by (simp add: AckCompletedEvents_loop.simps)
    next
      case False
      from 3(1)[OF Cons False] 3(2)[OF Cons False] 3(3) Cons False show ?thesis
        by (simp add: AckCompletedEvents_loop.simps[of cl s])
    qed
  qed
next
  case (4 cl e src res s)
  have "reports_known_from n (s\<lparr>client_calls := client_calls s @ [OnGestureEventAck e src res]\<rparr>)"
    by (rule reports_known_from_prefix[OF 4(2), of _ "[OnGestureEventAck e src res]"])
      (use 4(3) in \<open>auto simp: acked_results_def\<close>)
  from 4(1)[OF this] show ?case
    by (simp add: AckGestureEventToClient.simps)
next
  case (5 cl s)
  then show ?case by simp
next
  case (6 cl src res ty lat as s)
  then show ?case by simp
qed

subsection \<open>Forwarding a sequence of events\<close>

lemma Forward_drained:
  assumes "ForwardGestureEvent dc fc cl e s = Inr s'" and "front_outstanding s"
  shows "front_outstanding s'"
proof -
  let ?t = "s\<lparr>sent_events_awaiting_ack := sent_events_awaiting_ack s @ [awaiting_ack e],
          fling_controller := observer_update fc e (fling_controller s)\<rparr>"
  let ?u = "?t\<lparr>client_calls := client_calls ?t @ [SendGestureEventImmediately e]\<rparr>"
  from assms(1) Forward_admissible[OF Forward_Inr_admissible[OF assms(1)], of fc cl s]
  have s': "s' = client_acks cl (cl (client_calls ?u)) ?u"
    by (simp add: client_SendGestureEventImmediately_def)
  from assms(2) have "front_outstanding ?u"
    by (cases "sent_events_awaiting_ack s") (simp_all add: front_outstanding_def awaiting_ack_def)
  from client_acks_drained[OF this] s' show ?thesis by simp
qed

lemma Forward_reported_known:
  assumes "ForwardGestureEvent dc fc cl e s = Inr s'" and "reports_known_from n s"
  shows "reports_known_from n s'"
proof -
  let ?t = "s\<lparr>sent_events_awaiting_ack := sent_events_awaiting_ack s @ [awaiting_ack e],
          fling_controller := observer_update fc e (fling_controller s)\<rparr>"
  let ?u = "?t\<lparr>client_calls := client_calls ?t @ [SendGestureEventImmediately e]\<rparr>"
  from assms(1) Forward_admissible[OF Forward_Inr_admissible[OF assms(1)], of fc cl s]
  have s': "s' = client_acks cl (cl (client_calls ?u)) ?u"
    by (simp add: client_SendGestureEventImmediately_def)
  have "reports_known_from n ?u"
    by (rule reports_known_from_prefix[OF assms(2), of _ "[SendGestureEventImmediately e]"])
      (simp_all add: acked_results_def)
  from reported_known_all(5)[OF this] s' show ?thesis by simp
qed

lemma Forward_prefix:
  assumes "ForwardGestureEvent dc fc cl e s = Inr s'"
  shows "prefix (client_calls s) (client_calls s')"
proof -
  let ?t = "s\<lparr>sent_events_awaiting_ack := sent_events_awaiting_ack s @ [awaiting_ack e],
          fling_controller := observer_update fc e (fling_controller s)\<rparr>"
  let ?u = "?t\<lparr>client_calls := client_calls ?t @ [SendGestureEventImmediately e]\<rparr>"
  from assms(1) Forward_admissible[OF Forward_Inr_admissible[OF assms(1)], of fc cl s]
  have s': "s' = client_acks cl (cl (client_calls ?u)) ?u"
    by (simp add: client_SendGestureEventImmediately_def)
  from ack_calls_prefix(5)[of ?u cl "cl (client_calls ?u)"] s' show ?thesis
    by (auto dest: append_prefixD)
qed

lemma forward_each_admissible:
  assumes "\<forall>e\<in>set es. admissible dc e" and "front_outstanding s"
    and "reports_known_from n s"
  shows "\<exists>s1. forward_each dc fc cl es s = Inr s1
    \<and> front_outstanding s1
    \<and> reports_known_from n s1
    \<and> prefix (client_calls s) (client_calls s1)
    \<and> sent_to_client (client_calls s1) = sent_to_client (client_calls s) @ es
    \<and> acked_keys (client_calls s1) @ pending_keys s1
        = acked_keys (client_calls s) @ pending_keys s @ map event_key es"
  using assms
proof (induction es arbitrary: s)
  case Nil
  then show ?case by simp
next
  case (Cons e es)
  from Cons.prems(1) have "admissible dc e" by simp
  from Forward_admissible[OF this] obtain t where
    t: "ForwardGestureEvent dc fc cl e s = Inr t" by blast
  from Cons.prems(1) have 1: "\<forall>e\<in>set es. admissible dc e" by simp
  have 2: "front_outstanding t" by (rule Forward_drained[OF t Cons.prems(2)])
  have 3: "reports_known_from n t"
    by (rule Forward_reported_known[OF t Cons.prems(3)])
  from Cons.IH[OF 1 2 3] obtain s1 where
    s1: "forward_each dc fc cl es t = Inr s1" "front_outstanding s1"
      "reports_known_from n s1"
      "prefix (client_calls t) (client_calls s1)"
      "sent_to_client (client_calls s1) = sent_to_client (client_calls t) @ es"
      "acked_keys (client_calls s1) @ pending_keys s1
        = acked_keys (client_calls t) @ pending_keys t @ map event_key es"
    by blast
  from Forward_prefix[OF t] s1(4) have "prefix (client_calls s) (client_calls s1)"
    by (rule prefix_order.trans)
  with s1 t Forward_frame(8)[OF t] Forward_conservation[OF t] show ?case
    by simp
qed

lemma new_queue_drained: "front_outstanding (GestureEventQueue_new interval fling)"
  by (simp add: front_outstanding_def GestureEventQueue_new_def)

lemma ShouldForward_drained:
  "front_outstanding s \<Longrightarrow> front_outstanding (snd (ShouldForwardForBounceReduction fc e s))"
  by (simp add: ShouldForwardForBounceReduction_def front_outstanding_def
      split: WebInputEventType.split)

lemma Debounce_drained:
  assumes "DebounceOrForwardEvent dc fc cl e s = Inr (b, s')" and "front_outstanding s"
  shows "front_outstanding s'"
proof -
  obtain b1 s1 where p: "ShouldForwardForBounceReduction fc e s = (b1, s1)"
    by (cases "ShouldForwardForBounceReduction fc e s")
  with ShouldForward_drained[OF assms(2), of fc e] have d: "front_outstanding s1" by simp
  show ?thesis
  proof (cases b1)
    case True
    with assms(1) p have "ForwardGestureEvent dc fc cl e s1 = Inr s'"
      by (simp add: Debounce_cases[OF p] split: if_splits sum.splits)
    from Forward_drained[OF this d] show ?thesis .
  next
    case False
    with assms(1) p d show ?thesis
      by (simp add: Debounce_cases[OF p] split: if_splits)
  qed
qed

lemma client_acks_suffix:
  "suffix (pending_keys (client_acks cl as s)) (pending_keys s)"
proof -
  from ack_calls_prefix(5)[of s cl as] obtain new where
    n: "client_calls (client_acks cl as s) = client_calls s @ new"
    by (auto simp: prefix_def)
  with ack_conservation(5)[of cl as s]
  have "pending_keys s = acked_keys new @ pending_keys (client_acks cl as s)"
    by simp
  then show ?thesis by (simp add: suffix_def)
qed

lemma settled_drained_empty:
  assumes "settled K ps" and "(\<lambda>p. event_type (gesture p)) ` set ps \<subseteq> K"
    and "case ps of [] \<Rightarrow> True | p # qs \<Rightarrow> ack_state p = INPUT_EVENT_ACK_STATE_UNKNOWN"
  shows "ps = []"
  using assms by (cases ps) (auto simp: settled_def ack_known_def)

text \<open>
  C1: start from an empty buffer with no release pass running, forward events of pairwise
  distinct types with \<open>ForwardGestureEvent\<close>, in order, then process
  acknowledgments whose types are a permutation of the forwarded types, each with a result
  other than Unknown, in the order they come (\<open>client_acks\<close> calls
  \<open>ProcessGestureAck\<close> for each acknowledgment of a list). Whatever the client sends back from inside
  the calls it receives, \<open>OnGestureEventAck\<close> is called for exactly the forwarded
  events (told apart by type and payload), each once and in forwarding order, never with
  status Unknown; every event was sent to the client once, in order; and the buffer is empty
  at the end. That an entry is released only from the front of the buffer, contiguously,
  is the conservation law used in the proof: reported events followed by buffered ones are
  always the forwarded ones.
\<close>

theorem acks_reported_in_forwarding_order:
  assumes "sent_events_awaiting_ack s = []" and "\<not> processing_acks s"
    and "distinct (map event_type es)"
    and "\<forall>e\<in>set es. admissible dc e"
    and "mset (map ack_type acks) = mset (map event_type es)"
    and "\<forall>a\<in>set acks. ack_result a \<noteq> INPUT_EVENT_ACK_STATE_UNKNOWN"
  shows "\<exists>s1 new. forward_each dc fc cl es s = Inr s1
    \<and> client_calls (client_acks cl acks s1) = client_calls s @ new
    \<and> acked_keys new = map event_key es
    \<and> INPUT_EVENT_ACK_STATE_UNKNOWN \<notin> set (acked_results new)
    \<and> sent_to_client new = es
    \<and> sent_events_awaiting_ack (client_acks cl acks s1) = []"
proof -
  let ?n = "length (client_calls s)"
  from assms(1,2) have fo: "front_outstanding s" by (simp add: front_outstanding_def)
  have rk: "reports_known_from ?n s" by (simp add: reports_known_from_def acked_results_def)
  from forward_each_admissible[OF assms(4) fo rk, of fc cl] obtain s1 where
    s1: "forward_each dc fc cl es s = Inr s1" "front_outstanding s1"
      "reports_known_from ?n s1"
      "prefix (client_calls s) (client_calls s1)"
      "sent_to_client (client_calls s1) = sent_to_client (client_calls s) @ es"
      "acked_keys (client_calls s1) @ pending_keys s1
        = acked_keys (client_calls s) @ pending_keys s @ map event_key es"
    by blast
  let ?s2 = "client_acks cl acks s1"
  from s1(4) ack_calls_prefix(5)[of s1 cl acks] have "prefix (client_calls s) (client_calls ?s2)"
    by (rule prefix_order.trans)
  then obtain new where new: "client_calls ?s2 = client_calls s @ new"
    by (auto simp: prefix_def)
  from s1(4) obtain n1 where n1: "client_calls s1 = client_calls s @ n1"
    by (auto simp: prefix_def)
  from s1(6) n1 assms(1) have p1: "map event_key es = acked_keys n1 @ pending_keys s1"
    by (simp add: pending_keys_def)
  then have sf: "suffix (pending_keys s1) (map event_key es)" by (simp add: suffix_def)
  have me: "map fst (map event_key es) = map event_type es"
    by (simp add: event_key_def comp_def)
  from assms(3) have "distinct (map fst (map event_key es))" unfolding me .
  from distinct_suffix_types[OF sf this] have d1: "distinct (map fst (pending_keys s1))" .
  have "settled {} (sent_events_awaiting_ack s1)" by (simp add: settled_def)
  from settled_client_acks[OF this d1 assms(6), of cl]
  have st: "settled (ack_type ` set acks) (sent_events_awaiting_ack ?s2)" by simp
  from assms(5) have "set (map ack_type acks) = set (map event_type es)"
    by (rule mset_eq_setD)
  then have K: "ack_type ` set acks = event_type ` set es" by simp
  from client_acks_suffix[of cl acks s1] p1
  obtain zs where zs: "map event_key es = zs @ pending_keys ?s2"
    by (auto simp: suffix_def)
  have "set (map fst (pending_keys ?s2)) \<subseteq> set (map fst (map event_key es))"
    by (subst zs) auto
  then have sub: "(\<lambda>p. event_type (gesture p)) ` set (sent_events_awaiting_ack ?s2) \<subseteq> ack_type ` set acks"
    unfolding K me by (simp add: pending_keys_def event_key_def comp_def image_image)
  from client_acks_drained[OF s1(2), of cl acks]
  have "case sent_events_awaiting_ack ?s2 of [] \<Rightarrow> True
      | p # qs \<Rightarrow> ack_state p = INPUT_EVENT_ACK_STATE_UNKNOWN"
    by (simp add: front_outstanding_def)
  from settled_drained_empty[OF st sub this] have empty: "sent_events_awaiting_ack ?s2 = []" .
  from ack_conservation(5)[of cl acks s1] s1(6) new assms(1) empty
  have keys: "acked_keys new = map event_key es"
    by (simp add: pending_keys_def)
  from reported_known_all(5)[OF s1(3), of cl acks] new
  have known: "INPUT_EVENT_ACK_STATE_UNKNOWN \<notin> set (acked_results new)"
    by (simp add: reports_known_from_def)
  from ack_sends_all(5)[of cl acks s1] s1(5) new have sends: "sent_to_client new = es"
    by simp
  from s1(1) new keys known sends empty show ?thesis by blast
qed

theorem acks_reported_in_forwarding_order_witness:
  "sent_events_awaiting_ack (GestureEventQueue_new 0 False) = []
   \<and> \<not> processing_acks (GestureEventQueue_new 0 False)
   \<and> distinct (map event_type
        [gesture_event kGestureScrollBegin 1, gesture_event kGestureScrollUpdate 2,
         gesture_event kGestureScrollEnd 3])
   \<and> admissible True (gesture_event kGestureScrollBegin 1)
   \<and> admissible True (gesture_event kGestureScrollUpdate 2)
   \<and> admissible True (gesture_event kGestureScrollEnd 3)
   \<and> mset (map ack_type
        [(1, INPUT_EVENT_ACK_STATE_CONSUMED, kGestureScrollEnd, []),
         (1, INPUT_EVENT_ACK_STATE_NOT_CONSUMED, kGestureScrollBegin, []),
         (1, INPUT_EVENT_ACK_STATE_CONSUMED, kGestureScrollUpdate, [])])
      = mset (map event_type
        [gesture_event kGestureScrollBegin 1, gesture_event kGestureScrollUpdate 2,
         gesture_event kGestureScrollEnd 3])
   \<and> ack_result (1, INPUT_EVENT_ACK_STATE_CONSUMED, kGestureScrollEnd, []) \<noteq> INPUT_EVENT_ACK_STATE_UNKNOWN
   \<and> ack_result (1, INPUT_EVENT_ACK_STATE_NOT_CONSUMED, kGestureScrollBegin, []) \<noteq> INPUT_EVENT_ACK_STATE_UNKNOWN
   \<and> ack_result (1, INPUT_EVENT_ACK_STATE_CONSUMED, kGestureScrollUpdate, []) \<noteq> INPUT_EVENT_ACK_STATE_UNKNOWN
   \<and> (\<exists>s1. forward_each True passive_fling_controller quiet_client
          [gesture_event kGestureScrollBegin 1, gesture_event kGestureScrollUpdate 2,
           gesture_event kGestureScrollEnd 3] (GestureEventQueue_new 0 False) = Inr s1
        \<and> acked_to_client (client_calls (client_acks quiet_client
            [(1, INPUT_EVENT_ACK_STATE_CONSUMED, kGestureScrollEnd, []),
             (1, INPUT_EVENT_ACK_STATE_NOT_CONSUMED, kGestureScrollBegin, []),
             (1, INPUT_EVENT_ACK_STATE_CONSUMED, kGestureScrollUpdate, [])] s1))
          = [(gesture_event kGestureScrollBegin 1, Some 1, INPUT_EVENT_ACK_STATE_NOT_CONSUMED),
             (gesture_event kGestureScrollUpdate 2, Some 1, INPUT_EVENT_ACK_STATE_CONSUMED),
             (gesture_event kGestureScrollEnd 3, Some 1, INPUT_EVENT_ACK_STATE_CONSUMED)]
        \<and> sent_events_awaiting_ack (client_acks quiet_client
            [(1, INPUT_EVENT_ACK_STATE_CONSUMED, kGestureScrollEnd, []),
             (1, INPUT_EVENT_ACK_STATE_NOT_CONSUMED, kGestureScrollBegin, []),
             (1, INPUT_EVENT_ACK_STATE_CONSUMED, kGestureScrollUpdate, [])] s1) = [])"
  using acks_reported_in_forwarding_order[of "GestureEventQueue_new 0 False"
      "[gesture_event kGestureScrollBegin 1, gesture_event kGestureScrollUpdate 2,
        gesture_event kGestureScrollEnd 3]" True
      "[(1, INPUT_EVENT_ACK_STATE_CONSUMED, kGestureScrollEnd, []),
        (1, INPUT_EVENT_ACK_STATE_NOT_CONSUMED, kGestureScrollBegin, []),
        (1, INPUT_EVENT_ACK_STATE_CONSUMED, kGestureScrollUpdate, [])]"
      passive_fling_controller quiet_client]
  by (simp add: GestureEventQueue_new_def gesture_event_def admissible_def ack_type_def
      ack_result_def ForwardGestureEvent_def client_SendGestureEventImmediately_def
      quiet_client_def passive_fling_controller_def awaiting_ack_def
      ProcessGestureAck.simps AckCompletedEvents.simps AckCompletedEvents_loop.simps
      AckGestureEventToClient.simps set_ack_info_def AddNewLatencyFrom_def)

subsection \<open>Acknowledgments that arrive during a release pass\<close>

lemma mark_only_frame [simp]:
  "length (sent_events_awaiting_ack (mark_only a s)) = length (sent_events_awaiting_ack s)"
  "processing_acks (mark_only a s) = processing_acks s"
  "client_calls (mark_only a s) = client_calls s"
  by (cases a; simp add: mark_only_def)+

lemma fold_mark_only_frame [simp]:
  "length (sent_events_awaiting_ack (fold mark_only as s)) = length (sent_events_awaiting_ack s)"
  "processing_acks (fold mark_only as s) = processing_acks s"
  "client_calls (fold mark_only as s) = client_calls s"
  by (induction as arbitrary: s) simp_all

termination release_pass
  by (relation "measure (\<lambda>(cl, s). length (sent_events_awaiting_ack s))") simp_all

declare release_pass.simps [simp del]

lemma nested_ProcessGestureAck:
  "processing_acks s \<Longrightarrow> ProcessGestureAck cl src res ty lat s = mark_only (src, res, ty, lat) s"
  by (simp add: ProcessGestureAck.simps mark_only_def)

lemma nested_client_acks:
  "processing_acks s \<Longrightarrow> client_acks cl as s = fold mark_only as s"
proof (induction as arbitrary: s)
  case Nil
  then show ?case by simp
next
  case (Cons a as)
  obtain src res ty lat where a: "a = (src, res, ty, lat)" by (cases a)
  from Cons.prems have "processing_acks (mark_only (src, res, ty, lat) s)" by simp
  from Cons.IH[OF this] Cons.prems a show ?case
    by (simp add: nested_ProcessGestureAck)
qed

lemma nested_AckGestureEventToClient:
  "processing_acks s \<Longrightarrow>
   AckGestureEventToClient cl e src res s
     = fold mark_only (cl (client_calls s @ [OnGestureEventAck e src res]))
         (s\<lparr>client_calls := client_calls s @ [OnGestureEventAck e src res]\<rparr>)"
  by (simp add: AckGestureEventToClient.simps nested_client_acks)

lemma loop_is_release_pass:
  "processing_acks s \<Longrightarrow> AckCompletedEvents_loop cl s = release_pass cl s"
proof (induction cl s rule: release_pass.induct)
  case (1 cl s)
  show ?case
  proof (cases "sent_events_awaiting_ack s")
    case Nil
    then show ?thesis by (simp add: AckCompletedEvents_loop.simps release_pass.simps)
  next
    case (Cons p ps)
    show ?thesis
    proof (cases "ack_state p = INPUT_EVENT_ACK_STATE_UNKNOWN")
      case True
      with Cons show ?thesis by (simp add: AckCompletedEvents_loop.simps release_pass.simps)
    next
      case False
      let ?t = "fold mark_only (cl (client_calls s @ [report_of p]))
              (s\<lparr>sent_events_awaiting_ack := ps,
                 client_calls := client_calls s @ [report_of p]\<rparr>)"
      from "1.prems" have "processing_acks ?t" by simp
      from "1.IH"[OF Cons False this] have ih: "AckCompletedEvents_loop cl ?t = release_pass cl ?t" .
      have "AckGestureEventToClient cl (gesture p) (ack_source p) (ack_state p)
              (s\<lparr>sent_events_awaiting_ack := ps\<rparr>) = ?t"
        using "1.prems" by (simp add: nested_AckGestureEventToClient report_of_def)
      with Cons False have "AckCompletedEvents_loop cl s = AckCompletedEvents_loop cl ?t"
        by (simp add: AckCompletedEvents_loop.simps[of cl s])
      also note ih
      also from Cons False have "release_pass cl ?t = release_pass cl s"
        by (simp add: release_pass.simps[of cl s])
      finally show ?thesis .
    qed
  qed
qed

lemma mark_only_flag:
  "mark_only a (s\<lparr>processing_acks := b\<rparr>) = (mark_only a s)\<lparr>processing_acks := b\<rparr>"
  by (cases a) (simp add: mark_only_def)

lemma fold_mark_only_flag:
  "fold mark_only as (s\<lparr>processing_acks := b\<rparr>) = (fold mark_only as s)\<lparr>processing_acks := b\<rparr>"
  by (induction as arbitrary: s) (simp_all add: mark_only_flag)

lemma flag_update_first:
  "s\<lparr>processing_acks := b, sent_events_awaiting_ack := ps, client_calls := cs\<rparr>
     = s\<lparr>sent_events_awaiting_ack := ps, client_calls := cs, processing_acks := b\<rparr>"
  by (cases s) simp

lemma release_pass_flag:
  "release_pass cl (s\<lparr>processing_acks := b\<rparr>) = (release_pass cl s)\<lparr>processing_acks := b\<rparr>"
proof (induction cl s rule: release_pass.induct)
  case (1 cl s)
  show ?case
  proof (cases "sent_events_awaiting_ack s")
    case Nil
    then show ?thesis by (simp add: release_pass.simps)
  next
    case (Cons p ps)
    show ?thesis
    proof (cases "ack_state p = INPUT_EVENT_ACK_STATE_UNKNOWN")
      case True
      with Cons show ?thesis by (simp add: release_pass.simps)
    next
      case False
      let ?u = "s\<lparr>sent_events_awaiting_ack := ps,
                 client_calls := client_calls s @ [report_of p]\<rparr>"
      let ?as = "cl (client_calls s @ [report_of p])"
      have "release_pass cl (s\<lparr>processing_acks := b\<rparr>)
          = release_pass cl (fold mark_only ?as (?u\<lparr>processing_acks := b\<rparr>))"
        using Cons False
        by (simp add: release_pass.simps[of cl "s\<lparr>processing_acks := b\<rparr>"] flag_update_first)
      also have "\<dots> = release_pass cl ((fold mark_only ?as ?u)\<lparr>processing_acks := b\<rparr>)"
        by (simp only: fold_mark_only_flag)
      also have "\<dots> = (release_pass cl (fold mark_only ?as ?u))\<lparr>processing_acks := b\<rparr>"
        by (rule "1.IH"[OF Cons False])
      also from Cons False have "release_pass cl (fold mark_only ?as ?u) = release_pass cl s"
        by (simp add: release_pass.simps[of cl s])
      finally show ?thesis .
    qed
  qed
qed

lemma release_pass_keeps_flag: "processing_acks (release_pass cl s) = processing_acks s"
proof (induction cl s rule: release_pass.induct)
  case (1 cl s)
  show ?case
  proof (cases "sent_events_awaiting_ack s")
    case Nil
    then show ?thesis by (simp add: release_pass.simps)
  next
    case (Cons p ps)
    show ?thesis
    proof (cases "ack_state p = INPUT_EVENT_ACK_STATE_UNKNOWN")
      case True
      with Cons show ?thesis by (simp add: release_pass.simps)
    next
      case False
      from "1.IH"[OF Cons False] Cons False show ?thesis
        by (simp add: release_pass.simps[of cl s])
    qed
  qed
qed

lemma AckCompletedEvents_is_release_pass:
  assumes "\<not> processing_acks s"
  shows "AckCompletedEvents cl s = release_pass cl s"
proof -
  from assms have "AckCompletedEvents cl s
      = (AckCompletedEvents_loop cl (s\<lparr>processing_acks := True\<rparr>))\<lparr>processing_acks := False\<rparr>"
    by (simp add: AckCompletedEvents.simps)
  also have "\<dots> = (release_pass cl (s\<lparr>processing_acks := True\<rparr>))\<lparr>processing_acks := False\<rparr>"
    by (simp add: loop_is_release_pass)
  also have "\<dots> = (release_pass cl s)\<lparr>processing_acks := False\<rparr>"
    by (simp add: release_pass_flag)
  also have "\<dots> = release_pass cl s"
    using assms by (intro flag_reset_id) (simp add: release_pass_keeps_flag)
  finally show ?thesis .
qed

text \<open>
  C3: \<open>AckCompletedEvents\<close> sets \<open>processing_acks\<close> for the time of the
  release pass and restores it afterwards, so every acknowledgment that the client sends
  from inside a report finds the flag set. With the flag set, a nested
  \<open>AckCompletedEvents\<close> returns the queue as it is, and a nested
  \<open>ProcessGestureAck\<close> only marks the entry it matches (or notes an unexpected
  acknowledgment): it removes nothing from the buffer and calls the client no further.
  Hence, for every client, a release pass started with the flag unset is the pass of the
  spec (\<open>release_pass\<close>): it removes and reports the front entry while that entry has
  left Unknown, what the client sends back in between only marks entries, and the outer
  pass goes on until the buffer is empty or its front entry is Unknown, so it also
  releases the entries that nested acknowledgments completed. The client is told exactly
  the entries removed from the front of the buffer, each once and in buffer order (the
  new reports followed by the entries left are the entries before), none of them with
  status Unknown.
\<close>

theorem release_pass_is_not_reentered:
  "(processing_acks s \<longrightarrow> AckCompletedEvents cl s = s)
   \<and> (processing_acks s \<longrightarrow>
        ProcessGestureAck cl src res ty lat s =
          (if sent_events_awaiting_ack s = [] then s\<lparr>unexpected_acks := unexpected_acks s @ [ty]\<rparr>
           else s\<lparr>sent_events_awaiting_ack :=
                  ack_first_outstanding src res ty lat (sent_events_awaiting_ack s)\<rparr>))
   \<and> (processing_acks s \<longrightarrow>
        client_calls (ProcessGestureAck cl src res ty lat s) = client_calls s
        \<and> pending_keys (ProcessGestureAck cl src res ty lat s) = pending_keys s)
   \<and> (\<exists>new. client_calls (AckCompletedEvents cl s) = client_calls s @ new
        \<and> sent_to_client new = []
        \<and> acked_keys new @ pending_keys (AckCompletedEvents cl s) = pending_keys s
        \<and> (\<not> processing_acks s \<longrightarrow> INPUT_EVENT_ACK_STATE_UNKNOWN \<notin> set (acked_results new)))
   \<and> (\<not> processing_acks s \<longrightarrow> front_outstanding (AckCompletedEvents cl s))
   \<and> (\<not> processing_acks s \<longrightarrow>
        AckCompletedEvents cl s
          = (AckCompletedEvents_loop cl (s\<lparr>processing_acks := True\<rparr>))\<lparr>processing_acks := False\<rparr>)
   \<and> (processing_acks s \<longrightarrow>
        AckGestureEventToClient cl e osrc ores s
          = fold mark_only (cl (client_calls s @ [OnGestureEventAck e osrc ores]))
              (s\<lparr>client_calls := client_calls s @ [OnGestureEventAck e osrc ores]\<rparr>))
   \<and> (processing_acks s \<longrightarrow> AckCompletedEvents_loop cl s = release_pass cl s)
   \<and> (\<not> processing_acks s \<longrightarrow> AckCompletedEvents cl s = release_pass cl s)"
proof -
  have nested: "ProcessGestureAck cl src res ty lat s =
          (if sent_events_awaiting_ack s = [] then s\<lparr>unexpected_acks := unexpected_acks s @ [ty]\<rparr>
           else s\<lparr>sent_events_awaiting_ack :=
                  ack_first_outstanding src res ty lat (sent_events_awaiting_ack s)\<rparr>)"
    if "processing_acks s"
    using that by (simp add: ProcessGestureAck.simps)
  have nested': "client_calls (ProcessGestureAck cl src res ty lat s) = client_calls s
        \<and> pending_keys (ProcessGestureAck cl src res ty lat s) = pending_keys s"
    if "processing_acks s"
    using nested[OF that] by (simp add: pending_keys_def)
  from ack_calls_prefix(2)[of s cl] obtain new where
    new: "client_calls (AckCompletedEvents cl s) = client_calls s @ new"
    by (auto simp: prefix_def)
  from ack_sends_all(2)[of cl s] new have sends: "sent_to_client new = []" by simp
  from ack_conservation(2)[of cl s] new
  have keys: "acked_keys new @ pending_keys (AckCompletedEvents cl s) = pending_keys s" by simp
  have "reports_known_from (length (client_calls s)) s"
    by (simp add: reports_known_from_def acked_results_def)
  from reported_known_all(2)[OF this, of cl] new
  have known: "INPUT_EVENT_ACK_STATE_UNKNOWN \<notin> set (acked_results new)"
    by (simp add: reports_known_from_def)
  from new sends keys known have ex: "\<exists>new. client_calls (AckCompletedEvents cl s) = client_calls s @ new
        \<and> sent_to_client new = []
        \<and> acked_keys new @ pending_keys (AckCompletedEvents cl s) = pending_keys s
        \<and> (\<not> processing_acks s \<longrightarrow> INPUT_EVENT_ACK_STATE_UNKNOWN \<notin> set (acked_results new))"
    by blast
  have noop: "processing_acks s \<longrightarrow> AckCompletedEvents cl s = s" by simp
  have drains: "\<not> processing_acks s \<longrightarrow> front_outstanding (AckCompletedEvents cl s)"
    by (simp add: AckCompletedEvents_drains)
  from nested have n1: "processing_acks s \<longrightarrow>
        ProcessGestureAck cl src res ty lat s =
          (if sent_events_awaiting_ack s = [] then s\<lparr>unexpected_acks := unexpected_acks s @ [ty]\<rparr>
           else s\<lparr>sent_events_awaiting_ack :=
                  ack_first_outstanding src res ty lat (sent_events_awaiting_ack s)\<rparr>)" by blast
  from nested' have n2: "processing_acks s \<longrightarrow>
        client_calls (ProcessGestureAck cl src res ty lat s) = client_calls s
        \<and> pending_keys (ProcessGestureAck cl src res ty lat s) = pending_keys s" by blast
  have sets: "\<not> processing_acks s \<longrightarrow>
        AckCompletedEvents cl s
          = (AckCompletedEvents_loop cl (s\<lparr>processing_acks := True\<rparr>))\<lparr>processing_acks := False\<rparr>"
    by (simp add: AckCompletedEvents.simps)
  have report: "processing_acks s \<longrightarrow>
        AckGestureEventToClient cl e osrc ores s
          = fold mark_only (cl (client_calls s @ [OnGestureEventAck e osrc ores]))
              (s\<lparr>client_calls := client_calls s @ [OnGestureEventAck e osrc ores]\<rparr>)"
    by (simp add: nested_AckGestureEventToClient)
  have inner: "processing_acks s \<longrightarrow> AckCompletedEvents_loop cl s = release_pass cl s"
    by (simp add: loop_is_release_pass)
  have outer: "\<not> processing_acks s \<longrightarrow> AckCompletedEvents cl s = release_pass cl s"
    by (simp add: AckCompletedEvents_is_release_pass)
  show ?thesis
    by (intro conjI noop n1 n2 ex drains sets report inner outer)
qed

theorem release_pass_is_not_reentered_witness:
  "processing_acks ((queue_awaiting [pending_entry kGestureScrollUpdate 2 INPUT_EVENT_ACK_STATE_CONSUMED])
      \<lparr>processing_acks := True\<rparr>)
   \<and> AckCompletedEvents reentrant_client
        ((queue_awaiting [pending_entry kGestureScrollUpdate 2 INPUT_EVENT_ACK_STATE_CONSUMED])
          \<lparr>processing_acks := True\<rparr>)
      = (queue_awaiting [pending_entry kGestureScrollUpdate 2 INPUT_EVENT_ACK_STATE_CONSUMED])
          \<lparr>processing_acks := True\<rparr>
   \<and> \<not> processing_acks (queue_awaiting
        [pending_entry kGestureScrollBegin 1 INPUT_EVENT_ACK_STATE_CONSUMED,
         pending_entry kGestureScrollUpdate 2 INPUT_EVENT_ACK_STATE_UNKNOWN,
         pending_entry kGestureScrollEnd 3 INPUT_EVENT_ACK_STATE_UNKNOWN])
   \<and> AckCompletedEvents reentrant_client
        (queue_awaiting
          [pending_entry kGestureScrollBegin 1 INPUT_EVENT_ACK_STATE_CONSUMED,
           pending_entry kGestureScrollUpdate 2 INPUT_EVENT_ACK_STATE_UNKNOWN,
           pending_entry kGestureScrollEnd 3 INPUT_EVENT_ACK_STATE_UNKNOWN])
      = release_pass reentrant_client
        (queue_awaiting
          [pending_entry kGestureScrollBegin 1 INPUT_EVENT_ACK_STATE_CONSUMED,
           pending_entry kGestureScrollUpdate 2 INPUT_EVENT_ACK_STATE_UNKNOWN,
           pending_entry kGestureScrollEnd 3 INPUT_EVENT_ACK_STATE_UNKNOWN])
   \<and> client_calls
        (AckCompletedEvents reentrant_client
          (queue_awaiting
            [pending_entry kGestureScrollBegin 1 INPUT_EVENT_ACK_STATE_CONSUMED,
             pending_entry kGestureScrollUpdate 2 INPUT_EVENT_ACK_STATE_UNKNOWN,
             pending_entry kGestureScrollEnd 3 INPUT_EVENT_ACK_STATE_UNKNOWN]))
      = [OnGestureEventAck (gesture_event kGestureScrollBegin 1) None INPUT_EVENT_ACK_STATE_CONSUMED,
         OnGestureEventAck \<lparr>event_type = kGestureScrollUpdate, event_data = 2, latency = [9]\<rparr>
           (Some 2) INPUT_EVENT_ACK_STATE_NOT_CONSUMED,
         OnGestureEventAck (gesture_event kGestureScrollEnd 3) (Some 1) INPUT_EVENT_ACK_STATE_CONSUMED]
   \<and> sent_events_awaiting_ack
        (AckCompletedEvents reentrant_client
          (queue_awaiting
            [pending_entry kGestureScrollBegin 1 INPUT_EVENT_ACK_STATE_CONSUMED,
             pending_entry kGestureScrollUpdate 2 INPUT_EVENT_ACK_STATE_UNKNOWN,
             pending_entry kGestureScrollEnd 3 INPUT_EVENT_ACK_STATE_UNKNOWN])) = []
   \<and> unexpected_acks
        (AckCompletedEvents reentrant_client
          (queue_awaiting
            [pending_entry kGestureScrollBegin 1 INPUT_EVENT_ACK_STATE_CONSUMED,
             pending_entry kGestureScrollUpdate 2 INPUT_EVENT_ACK_STATE_UNKNOWN,
             pending_entry kGestureScrollEnd 3 INPUT_EVENT_ACK_STATE_UNKNOWN])) = []
   \<and> front_outstanding
        (AckCompletedEvents reentrant_client
          (queue_awaiting
            [pending_entry kGestureScrollBegin 1 INPUT_EVENT_ACK_STATE_CONSUMED,
             pending_entry kGestureScrollUpdate 2 INPUT_EVENT_ACK_STATE_UNKNOWN,
             pending_entry kGestureScrollEnd 3 INPUT_EVENT_ACK_STATE_UNKNOWN]))"
proof -
  let ?s = "queue_awaiting
          [pending_entry kGestureScrollBegin 1 INPUT_EVENT_ACK_STATE_CONSUMED,
           pending_entry kGestureScrollUpdate 2 INPUT_EVENT_ACK_STATE_UNKNOWN,
           pending_entry kGestureScrollEnd 3 INPUT_EVENT_ACK_STATE_UNKNOWN] :: bool GestureEventQueue"
  let ?t = "(queue_awaiting [pending_entry kGestureScrollUpdate 2 INPUT_EVENT_ACK_STATE_CONSUMED])
          \<lparr>processing_acks := True\<rparr> :: bool GestureEventQueue"
  have off: "\<not> processing_acks ?s" and on: "processing_acks ?t"
    by (simp_all add: queue_awaiting_def GestureEventQueue_new_def)
  note inner = release_pass_is_not_reentered[of ?t reentrant_client 1
      INPUT_EVENT_ACK_STATE_CONSUMED kGestureScrollBegin "[]"]
  note outer = release_pass_is_not_reentered[of ?s reentrant_client 1
      INPUT_EVENT_ACK_STATE_CONSUMED kGestureScrollBegin "[]"]
  from inner on have 1: "AckCompletedEvents reentrant_client ?t = ?t" by blast
  from outer off have 2: "AckCompletedEvents reentrant_client ?s = release_pass reentrant_client ?s"
    and 3: "front_outstanding (AckCompletedEvents reentrant_client ?s)" by blast+
  have 4: "release_pass reentrant_client ?s
      = ?s\<lparr>sent_events_awaiting_ack := [],
           client_calls :=
             [OnGestureEventAck (gesture_event kGestureScrollBegin 1) None INPUT_EVENT_ACK_STATE_CONSUMED,
              OnGestureEventAck \<lparr>event_type = kGestureScrollUpdate, event_data = 2, latency = [9]\<rparr>
                (Some 2) INPUT_EVENT_ACK_STATE_NOT_CONSUMED,
              OnGestureEventAck (gesture_event kGestureScrollEnd 3) (Some 1) INPUT_EVENT_ACK_STATE_CONSUMED]\<rparr>"
    by (simp add: queue_awaiting_def pending_entry_def GestureEventQueue_new_def gesture_event_def
        reentrant_client_def release_pass.simps mark_only_def report_of_def set_ack_info_def
        AddNewLatencyFrom_def)
  have 5: "AckCompletedEvents reentrant_client ?s
      = ?s\<lparr>sent_events_awaiting_ack := [],
           client_calls :=
             [OnGestureEventAck (gesture_event kGestureScrollBegin 1) None INPUT_EVENT_ACK_STATE_CONSUMED,
              OnGestureEventAck \<lparr>event_type = kGestureScrollUpdate, event_data = 2, latency = [9]\<rparr>
                (Some 2) INPUT_EVENT_ACK_STATE_NOT_CONSUMED,
              OnGestureEventAck (gesture_event kGestureScrollEnd 3) (Some 1) INPUT_EVENT_ACK_STATE_CONSUMED]\<rparr>"
    by (simp add: queue_awaiting_def pending_entry_def GestureEventQueue_new_def gesture_event_def
        reentrant_client_def ProcessGestureAck.simps AckCompletedEvents.simps
        AckCompletedEvents_loop.simps AckGestureEventToClient.simps set_ack_info_def
        AddNewLatencyFrom_def)
  from 2 4 5 have 6: "client_calls (AckCompletedEvents reentrant_client ?s)
      = [OnGestureEventAck (gesture_event kGestureScrollBegin 1) None INPUT_EVENT_ACK_STATE_CONSUMED,
         OnGestureEventAck \<lparr>event_type = kGestureScrollUpdate, event_data = 2, latency = [9]\<rparr>
           (Some 2) INPUT_EVENT_ACK_STATE_NOT_CONSUMED,
         OnGestureEventAck (gesture_event kGestureScrollEnd 3) (Some 1) INPUT_EVENT_ACK_STATE_CONSUMED]"
    and 7: "sent_events_awaiting_ack (AckCompletedEvents reentrant_client ?s) = []"
    and 8: "unexpected_acks (AckCompletedEvents reentrant_client ?s) = []"
    by (simp_all add: queue_awaiting_def GestureEventQueue_new_def)
  show ?thesis
    by (intro conjI on 1 off 2 6 7 8 3)
qed

section \<open>Deferral while scrolling and the flush\<close>

lemma flush_loop:
  assumes "\<forall>e\<in>set es. admissible dc e"
  shows "\<exists>s'. SendScrollEndingEventsNow_loop dc fc cl es s = Inr s'
    \<and> sent_to_client (client_calls s') = sent_to_client (client_calls s) @ unconsumed fc es (fling_controller s)
    \<and> acked_keys (client_calls s') @ pending_keys s'
        = acked_keys (client_calls s) @ pending_keys s @ map event_key (unconsumed fc es (fling_controller s))
    \<and> scrolling_in_progress s' = scrolling_in_progress s
    \<and> debouncing_deferral_queue s' = debouncing_deferral_queue s
    \<and> debounce_deferring_timer s' = debounce_deferring_timer s"
  using assms
proof (induction es arbitrary: s)
  case Nil
  then show ?case by simp
next
  case (Cons e es)
  from Cons.prems have adm: "admissible dc e" and rest: "\<forall>e\<in>set es. admissible dc e" by simp_all
  obtain c f1 where f: "FilterGestureEvent fc e (fling_controller s) = (c, f1)"
    by (cases "FilterGestureEvent fc e (fling_controller s)")
  show ?case
  proof (cases c)
    case True
    from Cons.IH[OF rest, of "s\<lparr>fling_controller := f1\<rparr>"] f True show ?thesis
      by (simp add: pending_keys_def)
  next
    case False
    let ?t = "s\<lparr>fling_controller := f1\<rparr>"
    from Forward_admissible[OF adm] obtain s1 where
      s1: "ForwardGestureEvent dc fc cl e ?t = Inr s1" by blast
    from Cons.IH[OF rest, of s1] obtain s' where
      s': "SendScrollEndingEventsNow_loop dc fc cl es s1 = Inr s'"
        "sent_to_client (client_calls s') = sent_to_client (client_calls s1) @ unconsumed fc es (fling_controller s1)"
        "acked_keys (client_calls s') @ pending_keys s'
          = acked_keys (client_calls s1) @ pending_keys s1 @ map event_key (unconsumed fc es (fling_controller s1))"
        "scrolling_in_progress s' = scrolling_in_progress s1"
        "debouncing_deferral_queue s' = debouncing_deferral_queue s1"
        "debounce_deferring_timer s' = debounce_deferring_timer s1"
      by blast
    from s' s1 f False Forward_frame[OF s1] Forward_conservation[OF s1] show ?thesis
      by (simp add: pending_keys_def)
  qed
qed

lemma ShouldForward_deferred_kind:
  assumes "0 < debounce_interval s" and "\<not> fling_in_progress fc (fling_controller s)"
    and "scrolling_in_progress s"
    and "event_type e \<noteq> kGestureScrollUpdate" and "event_type e \<noteq> kGesturePinchBegin"
    and "event_type e \<noteq> kGesturePinchEnd" and "event_type e \<noteq> kGesturePinchUpdate"
  shows "ShouldForwardForBounceReduction fc e s
    = (False, s\<lparr>debouncing_deferral_queue := debouncing_deferral_queue s @ [e]\<rparr>)"
  using assms by (simp add: ShouldForwardForBounceReduction_def split: WebInputEventType.split)

text \<open>
  C5: with a quiet period in force (a positive debounce interval), no fling in progress
  and the scrolling flag set (so the timer runs), an admissible event that is neither a
  scroll update nor a pinch event is appended to the debouncing deferral queue and
  \<open>DebounceOrForwardEvent\<close> returns false: nothing is sent and nothing else changes.
  When the timer then fires, the flag is cleared and the deferral queue is emptied: its
  events are offered to the fling controller's filter in queue order, and the events sent
  to the client are exactly those the filter does not consume, each once and in that
  order; they are also the new entries of the buffer.
\<close>

theorem deferred_while_scrolling_then_flushed:
  assumes "0 < debounce_interval s" and "\<not> fling_in_progress fc (fling_controller s)"
    and "scrolling_in_progress s" and "timer_running (debounce_deferring_timer s)"
    and "event_type e \<noteq> kGestureScrollUpdate" and "event_type e \<noteq> kGesturePinchBegin"
    and "event_type e \<noteq> kGesturePinchEnd" and "event_type e \<noteq> kGesturePinchUpdate"
    and "admissible dc e" and "\<forall>d\<in>set (debouncing_deferral_queue s). admissible dc d"
  shows "DebounceOrForwardEvent dc fc cl e s
      = Inr (False, s\<lparr>debouncing_deferral_queue := debouncing_deferral_queue s @ [e]\<rparr>)
    \<and> (\<exists>s'. debounce_deferring_timer_fires dc fc cl
            (s\<lparr>debouncing_deferral_queue := debouncing_deferral_queue s @ [e]\<rparr>) = Inr s'
        \<and> \<not> scrolling_in_progress s'
        \<and> debouncing_deferral_queue s' = []
        \<and> \<not> timer_running (debounce_deferring_timer s')
        \<and> sent_to_client (client_calls s')
            = sent_to_client (client_calls s)
                @ unconsumed fc (debouncing_deferral_queue s @ [e]) (fling_controller s)
        \<and> acked_keys (client_calls s') @ pending_keys s'
            = acked_keys (client_calls s) @ pending_keys s
                @ map event_key (unconsumed fc (debouncing_deferral_queue s @ [e]) (fling_controller s)))"
proof -
  let ?q = "debouncing_deferral_queue s @ [e]"
  let ?t = "s\<lparr>debouncing_deferral_queue := ?q\<rparr>"
  have sf: "ShouldForwardForBounceReduction fc e s = (False, ?t)"
    by (rule ShouldForward_deferred_kind[OF assms(1,2,3,5,6,7,8)])
  from assms(9) have d: "DebounceOrForwardEvent dc fc cl e s = Inr (False, ?t)"
    by (simp add: Debounce_cases[OF sf])
  let ?u = "s\<lparr>debounce_deferring_timer := (debounce_deferring_timer s)\<lparr>timer_running := False\<rparr>,
      scrolling_in_progress := False,
      debouncing_deferral_queue := []\<rparr>"
  from assms(9,10) have adm: "\<forall>x\<in>set ?q. admissible dc x" by simp
  from flush_loop[OF adm, of fc cl ?u] obtain s' where
    s': "SendScrollEndingEventsNow_loop dc fc cl ?q ?u = Inr s'"
      "sent_to_client (client_calls s') = sent_to_client (client_calls ?u) @ unconsumed fc ?q (fling_controller ?u)"
      "acked_keys (client_calls s') @ pending_keys s'
        = acked_keys (client_calls ?u) @ pending_keys ?u @ map event_key (unconsumed fc ?q (fling_controller ?u))"
      "scrolling_in_progress s' = scrolling_in_progress ?u"
      "debouncing_deferral_queue s' = debouncing_deferral_queue ?u"
      "debounce_deferring_timer s' = debounce_deferring_timer ?u"
    by blast
  from assms(4) s'(1) have fire: "debounce_deferring_timer_fires dc fc cl ?t = Inr s'"
    by (simp add: debounce_deferring_timer_fires_def SendScrollEndingEventsNow_def Let_def)
  from s'(2-6) have
    "\<not> scrolling_in_progress s'" "debouncing_deferral_queue s' = []"
    "\<not> timer_running (debounce_deferring_timer s')"
    "sent_to_client (client_calls s') = sent_to_client (client_calls s) @ unconsumed fc ?q (fling_controller s)"
    "acked_keys (client_calls s') @ pending_keys s'
        = acked_keys (client_calls s) @ pending_keys s @ map event_key (unconsumed fc ?q (fling_controller s))"
    by (simp_all add: pending_keys_def)
  with d fire show ?thesis by blast
qed

theorem deferred_while_scrolling_then_flushed_witness:
  "0 < debounce_interval (scrolling_queue [])
   \<and> \<not> fling_in_progress passive_fling_controller (fling_controller (scrolling_queue []))
   \<and> scrolling_in_progress (scrolling_queue [])
   \<and> timer_running (debounce_deferring_timer (scrolling_queue []))
   \<and> admissible True (gesture_event kGestureTap 7)
   \<and> DebounceOrForwardEvent True passive_fling_controller quiet_client (gesture_event kGestureTap 7)
        (scrolling_queue []) = Inr (False, scrolling_queue [gesture_event kGestureTap 7])
   \<and> (\<exists>s'. debounce_deferring_timer_fires True passive_fling_controller quiet_client
          (scrolling_queue [gesture_event kGestureTap 7]) = Inr s'
        \<and> \<not> scrolling_in_progress s'
        \<and> debouncing_deferral_queue s' = []
        \<and> client_calls s'
            = [SendGestureEventImmediately (gesture_event kGestureScrollUpdate 1),
               SendGestureEventImmediately (gesture_event kGestureTap 7)]
        \<and> sent_events_awaiting_ack s' = [awaiting_ack (gesture_event kGestureTap 7)])"
  using deferred_while_scrolling_then_flushed[of "scrolling_queue []" passive_fling_controller
      "gesture_event kGestureTap 7" True quiet_client]
  by (simp add: scrolling_queue_def GestureEventQueue_new_def passive_fling_controller_def
      gesture_event_def admissible_def quiet_client_def debounce_deferring_timer_fires_def
      SendScrollEndingEventsNow_def ForwardGestureEvent_def client_SendGestureEventImmediately_def)

section \<open>Fling start and fling cancel at the forwarding boundary\<close>

lemma Forward_without_dchecks:
  "ForwardGestureEvent False fc cl e s =
     Inr (client_SendGestureEventImmediately cl e
       (s\<lparr>sent_events_awaiting_ack := sent_events_awaiting_ack s @ [awaiting_ack e],
          fling_controller := observer_update fc e (fling_controller s)\<rparr>))"
  by (rule Forward_admissible) (simp add: admissible_def)

text \<open>
  C2, as stated, fails where DCHECKs are compiled out: on a fresh queue with debouncing
  disabled, a fling start given to \<open>DebounceOrForwardEvent\<close> is sent to the client and
  becomes an entry of the buffer.
\<close>

theorem fling_start_forwarded_without_dchecks:
  "DebounceOrForwardEvent False passive_fling_controller quiet_client
      (gesture_event kGestureFlingStart 1) (GestureEventQueue_new 0 False)
    = Inr (True,
        (GestureEventQueue_new 0 False)
          \<lparr>sent_events_awaiting_ack := [awaiting_ack (gesture_event kGestureFlingStart 1)],
           client_calls := [SendGestureEventImmediately (gesture_event kGestureFlingStart 1)]\<rparr>)"
  by (simp add: DebounceOrForwardEvent_def ShouldForwardForBounceReduction_def
      ForwardGestureEvent_def client_SendGestureEventImmediately_def quiet_client_def
      GestureEventQueue_new_def gesture_event_def passive_fling_controller_def)

text \<open>
  C2, amended: for every fling start or fling cancel, \<open>FlingControllerFilterEvent\<close>
  answers that the event is consumed and neither sends it to the client nor puts it into
  the buffer or a deferral queue, so a caller that filters first never passes it on. Where
  DCHECKs are compiled in, \<open>DebounceOrForwardEvent\<close> and \<open>ForwardGestureEvent\<close>
  stop at the contract check, before anything is sent or buffered. Where they are compiled
  out, the event is not dropped: \<open>DebounceOrForwardEvent\<close> treats it like any type
  other than scroll update and pinch, that is, it forwards it (sent to the client, appended
  to the buffer) unless a quiet period is in force with the scrolling flag set and no fling
  in progress, in which case it defers it.
\<close>

theorem fling_events_stopped_by_filter_or_dcheck:
  assumes "event_type e = kGestureFlingStart \<or> event_type e = kGestureFlingCancel"
  shows "fst (FlingControllerFilterEvent fc e s)
    \<and> client_calls (snd (FlingControllerFilterEvent fc e s)) = client_calls s
    \<and> sent_events_awaiting_ack (snd (FlingControllerFilterEvent fc e s)) = sent_events_awaiting_ack s
    \<and> debouncing_deferral_queue (snd (FlingControllerFilterEvent fc e s)) = debouncing_deferral_queue s
    \<and> deferred_gesture_queue (snd (FlingControllerFilterEvent fc e s)) = deferred_gesture_queue s
    \<and> DebounceOrForwardEvent True fc cl e s = Inl DCheckFailure
    \<and> ForwardGestureEvent True fc cl e s = Inl DCheckFailure
    \<and> DebounceOrForwardEvent False fc cl e s =
        (if debounce_interval s \<le> 0 \<or> fling_in_progress fc (fling_controller s)
            \<or> \<not> scrolling_in_progress s
         then Inr (True,
           client_SendGestureEventImmediately cl e
             (s\<lparr>sent_events_awaiting_ack := sent_events_awaiting_ack s @ [awaiting_ack e]\<rparr>))
         else Inr (False, s\<lparr>debouncing_deferral_queue := debouncing_deferral_queue s @ [e]\<rparr>))"
proof -
  have filter: "fst (FlingControllerFilterEvent fc e s)
    \<and> client_calls (snd (FlingControllerFilterEvent fc e s)) = client_calls s
    \<and> sent_events_awaiting_ack (snd (FlingControllerFilterEvent fc e s)) = sent_events_awaiting_ack s
    \<and> debouncing_deferral_queue (snd (FlingControllerFilterEvent fc e s)) = debouncing_deferral_queue s
    \<and> deferred_gesture_queue (snd (FlingControllerFilterEvent fc e s)) = deferred_gesture_queue s"
    using assms
    by (cases "FilterGestureEvent fc e (fling_controller s)")
      (auto simp: FlingControllerFilterEvent_def split: bool.splits)
  have dbg: "DebounceOrForwardEvent True fc cl e s = Inl DCheckFailure"
    "ForwardGestureEvent True fc cl e s = Inl DCheckFailure"
    using assms by (auto simp: DebounceOrForwardEvent_def ForwardGestureEvent_def)
  have obs: "observer_update fc e (fling_controller t) = fling_controller t" for t :: "'a GestureEventQueue"
    using assms by (auto simp: observer_update_def)
  have sf: "ShouldForwardForBounceReduction fc e s =
      (if debounce_interval s \<le> 0 \<or> fling_in_progress fc (fling_controller s)
            \<or> \<not> scrolling_in_progress s
       then (True, s)
       else (False, s\<lparr>debouncing_deferral_queue := debouncing_deferral_queue s @ [e]\<rparr>))"
    using assms by (auto simp: ShouldForwardForBounceReduction_def)
  have rel: "DebounceOrForwardEvent False fc cl e s =
        (if debounce_interval s \<le> 0 \<or> fling_in_progress fc (fling_controller s)
            \<or> \<not> scrolling_in_progress s
         then Inr (True,
           client_SendGestureEventImmediately cl e
             (s\<lparr>sent_events_awaiting_ack := sent_events_awaiting_ack s @ [awaiting_ack e]\<rparr>))
         else Inr (False, s\<lparr>debouncing_deferral_queue := debouncing_deferral_queue s @ [e]\<rparr>))"
  proof (cases "debounce_interval s \<le> 0 \<or> fling_in_progress fc (fling_controller s)
            \<or> \<not> scrolling_in_progress s")
    case True
    with sf have "ShouldForwardForBounceReduction fc e s = (True, s)" by simp
    from Debounce_cases[OF this, of False cl] True obs[of s] show ?thesis
      by (simp add: admissible_def Forward_without_dchecks)
  next
    case False
    with sf have "ShouldForwardForBounceReduction fc e s
        = (False, s\<lparr>debouncing_deferral_queue := debouncing_deferral_queue s @ [e]\<rparr>)" by simp
    from Debounce_cases[OF this, of False cl] False show ?thesis
      by (simp add: admissible_def)
  qed
  from filter dbg rel show ?thesis by blast
qed

theorem fling_events_stopped_by_filter_or_dcheck_witness:
  "(event_type (gesture_event kGestureFlingStart 1) = kGestureFlingStart
      \<or> event_type (gesture_event kGestureFlingStart 1) = kGestureFlingCancel)
   \<and> FlingControllerFilterEvent passive_fling_controller (gesture_event kGestureFlingStart 1)
        (GestureEventQueue_new 0 False)
      = (True, (GestureEventQueue_new 0 False)\<lparr>fling_controller := True\<rparr>)
   \<and> DebounceOrForwardEvent True passive_fling_controller quiet_client
        (gesture_event kGestureFlingStart 1) (GestureEventQueue_new 0 False) = Inl DCheckFailure
   \<and> ForwardGestureEvent True passive_fling_controller quiet_client
        (gesture_event kGestureFlingStart 1) (GestureEventQueue_new 0 False) = Inl DCheckFailure"
  using fling_events_stopped_by_filter_or_dcheck[of "gesture_event kGestureFlingStart 1"
      passive_fling_controller "GestureEventQueue_new 0 False" quiet_client]
  by (simp add: gesture_event_def FlingControllerFilterEvent_def passive_fling_controller_def
      GestureEventQueue_new_def)

end
